theory Spec2Isabelle
  imports Main "HOL-Library.Word"
begin

unbundle bit_operations_syntax

section \<open>MTMalloc: utilities (mtmalloc\_util.h)\<close>

text \<open>
  \<open>size_t\<close> and \<open>uintptr_t\<close> are 64-bit. Sizes, indices and addresses are kept as
  natural numbers; wherever the source uses a bit trick or a narrower integer type the
  value goes through a machine word of that width, so truncation and wrap-around are
  those of the source.
\<close>

type_synonym u8 = "8 word"
type_synonym u32 = "32 word"
type_synonym u64 = "64 word"

text \<open>\<open>RoundUpTo(size, boundary) = (size + boundary - 1) & ~(boundary - 1)\<close>\<close>

definition RoundUpTo :: "nat \<Rightarrow> nat \<Rightarrow> nat" where
  "RoundUpTo sz boundary =
     unat (((word_of_nat sz :: u64) + word_of_nat boundary - 1) AND NOT (word_of_nat boundary - 1))"

text \<open>\<open>RoundDownTo(x, boundary) = x & ~(boundary - 1)\<close>\<close>

definition RoundDownTo :: "nat \<Rightarrow> nat \<Rightarrow> nat" where
  "RoundDownTo x boundary =
     unat ((word_of_nat x :: u64) AND NOT (word_of_nat boundary - 1))"

section \<open>Constants and size classes (mtmalloc.h, mtmalloc\_size\_classes.h)\<close>

definition kSuperPageSize :: nat where
  "kSuperPageSize = 2 ^ 19"

definition kAllocatorSpace :: nat where
  "kAllocatorSpace = 0x600000000000"

definition kAllocatorSize :: nat where
  "kAllocatorSize = 0x10000000000"

definition kSecondRangeMeta :: nat where
  "kSecondRangeMeta = 0x710000000000"

definition kSizeAlignmentForSecondRange :: nat where
  "kSizeAlignmentForSecondRange = 1024"

definition kFirstSuperPage :: "nat \<Rightarrow> nat" where
  "kFirstSuperPage r = (if r = 0 then kAllocatorSpace else kAllocatorSpace + kAllocatorSize div 2)"

definition kDivMulShift :: nat where
  "kDivMulShift = 35"

definition kStateArrayAlignment :: nat where
  "kStateArrayAlignment = 32"

definition SCArray :: "nat list" where
  "SCArray =
   [16, 32, 48, 64, 80, 96, 112, 128,
    144, 160, 176, 192, 208, 224, 240, 256,
    272, 288, 336, 368, 448, 480, 512, 576,
    640, 704, 768, 896, 1024, 1152, 1280, 1408,
    1536, 1792, 2048, 2304, 2688, 2816, 3200, 3456,
    3584, 4096, 4736, 5376, 6144, 6528, 7168, 8192,
    9216, 10240, 12288, 14336, 16384, 20480, 24576, 28672,
    32768, 40960, 49152, 57344, 65536, 73728, 81920, 98304,
    131072, 172032, 262144]"

definition kNumSizeClasses :: nat where
  "kNumSizeClasses = length SCArray"

definition kMaxSizeClass :: nat where
  "kMaxSizeClass = SCArray ! (kNumSizeClasses - 1)"

text \<open>
  \<open>struct SizeClassDescr\<close>: four bit-fields of widths 1, 15, 16 and 32. The fields hold
  natural numbers; every store into a field (in \<open>InitAll\<close>) truncates to the field width.
\<close>

record SizeClassDescr =
  RangeNum :: nat
  NumChunks :: nat
  ChunkSizeDiv16 :: nat
  ChunkSizeMulDiv :: nat

definition ChunkSize :: "SizeClassDescr \<Rightarrow> nat" where
  "ChunkSize d = ChunkSizeDiv16 d * 16"

subsection \<open>Division by the chunk size through a multiplication\<close>

text \<open>
  \<open>ComputeMulForDiv(uint32_t Div, uint32_t Shift)\<close>: the quotient is computed in 64 bits
  and stored into a \<open>uint32_t\<close>. A zero divisor is a hardware trap in the source; every
  caller below rules it out before the call.
\<close>

definition ComputeMulForDiv :: "nat \<Rightarrow> nat \<Rightarrow> nat" where
  "ComputeMulForDiv Div Shift =
     (let Mul = ((2 ^ Shift) mod 2 ^ 64 div Div) mod 2 ^ 32 in
      if unat ((word_of_nat Div :: u32) AND (word_of_nat Div - 1)) \<noteq> 0
      then (Mul + 1) mod 2 ^ 32 else Mul)"

text \<open>
  The loop of \<open>IsCorrectDivToMul\<close>, \<open>Left\<close> (here \<open>Lft\<close>) running from its current value up to
  \<open>MaxLeft\<close> inclusive. \<open>Left\<close> is a \<open>uint64_t\<close>, \<open>D1\<close> and \<open>D2\<close> are \<open>uint32_t\<close>.
\<close>

function IsCorrectDivToMul_loop :: "nat \<Rightarrow> nat \<Rightarrow> nat \<Rightarrow> nat \<Rightarrow> nat \<Rightarrow> bool" where
  "IsCorrectDivToMul_loop Div Mul Shift MaxLeft Lft =
     (if Lft \<le> MaxLeft then
        (let D1 = (Lft div Div) mod 2 ^ 32;
             D2 = ((Lft * Mul) mod 2 ^ 64 div 2 ^ Shift) mod 2 ^ 32
         in if D1 \<noteq> D2 then False
            else IsCorrectDivToMul_loop Div Mul Shift MaxLeft (Lft + 1))
      else True)"
  by pat_completeness auto
termination
  by (relation "measure (\<lambda>(Div, Mul, Shift, MaxLeft, Lft). MaxLeft + 1 - Lft)") auto

declare IsCorrectDivToMul_loop.simps [simp del]

definition IsCorrectDivToMul :: "nat \<Rightarrow> nat \<Rightarrow> nat \<Rightarrow> nat \<Rightarrow> bool" where
  "IsCorrectDivToMul Div Mul Shift MaxLeft = IsCorrectDivToMul_loop Div Mul Shift MaxLeft 1"

text \<open>\<open>DivBySizeViaMul(uint32_t Lft, uint32_t DivMul)\<close>: 64-bit product, 32-bit result.\<close>

definition DivBySizeViaMul :: "nat \<Rightarrow> nat \<Rightarrow> nat" where
  "DivBySizeViaMul Lft DivMul =
     (((Lft mod 2 ^ 32) * (DivMul mod 2 ^ 32)) mod 2 ^ 64 div 2 ^ kDivMulShift) mod 2 ^ 32"

subsection \<open>Chunks per super page\<close>

definition SizeOfInlineMeta :: "nat \<Rightarrow> nat \<Rightarrow> nat" where
  "SizeOfInlineMeta N R = (if R = 1 then 0 else RoundUpTo N kStateArrayAlignment)"

text \<open>
  The loop of \<open>ComputeNumChunks\<close>, counting \<open>NumChunks\<close> down to 1; falling out of the
  loop is \<open>__builtin_trap()\<close>, here \<open>None\<close>.
\<close>

fun ComputeNumChunks_loop :: "nat \<Rightarrow> nat \<Rightarrow> nat \<Rightarrow> nat option" where
  "ComputeNumChunks_loop CS R 0 = None"
| "ComputeNumChunks_loop CS R (Suc n) =
     (if SizeOfInlineMeta (Suc n) R + Suc n * CS \<le> kSuperPageSize then Some (Suc n)
      else ComputeNumChunks_loop CS R n)"

definition ComputeNumChunks :: "nat \<Rightarrow> nat \<Rightarrow> nat option" where
  "ComputeNumChunks CS R = ComputeNumChunks_loop CS R (kSuperPageSize div CS)"

subsection \<open>Building the size-class descriptors (\<open>Allocator::InitAll\<close>)\<close>

text \<open>
  The \<open>while\<close> loop that bumps a candidate chunk size by the second-range alignment
  until the reciprocal test passes. \<open>ChunkSize\<close> is a \<open>size_t\<close>; both callees take it
  as a \<open>uint32_t\<close>. A divisor that truncates to zero is a division trap (\<open>None\<close>).
  Nothing bounds the number of iterations, so not returning is \<open>None\<close> as well.
\<close>

partial_function (option) FixUpChunkSize :: "nat \<Rightarrow> nat option" where
  "FixUpChunkSize CS =
     (if CS mod 2 ^ 32 = 0 then None
      else if IsCorrectDivToMul (CS mod 2 ^ 32) (ComputeMulForDiv (CS mod 2 ^ 32) kDivMulShift)
                kDivMulShift kSuperPageSize
      then Some CS
      else FixUpChunkSize ((CS + kSizeAlignmentForSecondRange) mod 2 ^ 64))"

text \<open>
  One iteration of the \<open>for\<close> loop of \<open>InitAll\<close>: the descriptor of one size class.
  The two \<open>assert\<close>s and the final \<open>assert(0)\<close> abort the process (\<open>None\<close>).
\<close>

definition InitSizeClass :: "nat \<Rightarrow> SizeClassDescr option" where
  "InitSizeClass SCArray_i =
     (case FixUpChunkSize SCArray_i of
        None \<Rightarrow> None
      | Some CS \<Rightarrow>
          if CS mod 16 \<noteq> 0 then None
          else if \<not> CS div 16 < 2 ^ 16 then None
          else
            let R = (if CS mod kSizeAlignmentForSecondRange = 0 then 1 else 0) mod 2 ^ 1 in
            (case ComputeNumChunks CS R of
               None \<Rightarrow> None
             | Some N \<Rightarrow>
                 let Mul = ComputeMulForDiv (CS mod 2 ^ 32) kDivMulShift mod 2 ^ 32 in
                 if \<not> IsCorrectDivToMul (CS mod 2 ^ 32) Mul kDivMulShift kSuperPageSize then None
                 else Some \<lparr>RangeNum = R, NumChunks = N mod 2 ^ 15,
                            ChunkSizeDiv16 = (CS div 16) mod 2 ^ 16, ChunkSizeMulDiv = Mul\<rparr>))"

fun InitAll_loop :: "nat list \<Rightarrow> SizeClassDescr list option" where
  "InitAll_loop [] = Some []"
| "InitAll_loop (sc # rest) =
     (case InitSizeClass sc of
        None \<Rightarrow> None
      | Some d \<Rightarrow> (case InitAll_loop rest of None \<Rightarrow> None | Some ds \<Rightarrow> Some (d # ds)))"

text \<open>The table \<open>SCDescr\<close> as \<open>InitAll\<close> leaves it, or \<open>None\<close> when \<open>InitAll\<close> aborts.\<close>

definition InitAll :: "SizeClassDescr list option" where
  "InitAll = InitAll_loop SCArray"

subsection \<open>From a request size to a size class (\<open>SizeToSizeClass\<close>)\<close>

text \<open>
  Everything that ends the process (\<open>TRAP()\<close>, \<open>__builtin_trap()\<close>, a failed \<open>assert\<close>)
  or leaves defined behaviour (an array read past its end) is a fault.
\<close>

datatype fault = Trap | DoubleFree | TagDoubleFree | AssertFail | OutOfBounds

text \<open>
  The \<open>for\<close> loop of \<open>SizeToSizeClass\<close> over the table \<open>SCDescr\<close>; falling out of it
  returns class 0 ("may happen on the first call").
\<close>

function SizeToSizeClass_loop :: "SizeClassDescr list \<Rightarrow> nat \<Rightarrow> nat \<Rightarrow> nat \<times> SizeClassDescr" where
  "SizeToSizeClass_loop SCD Size Idx =
     (if Idx < kNumSizeClasses then
        (if Size \<le> ChunkSize (SCD ! Idx) then (Idx, SCD ! Idx)
         else SizeToSizeClass_loop SCD Size (Idx + 1))
      else (0, SCD ! 0))"
  by pat_completeness auto
termination
  by (relation "measure (\<lambda>(SCD, Size, Idx). kNumSizeClasses - Idx)") auto

declare SizeToSizeClass_loop.simps [simp del]

text \<open>
  \<open>SizeToSizeClass(Size, SCD)\<close> returns the class and, through the reference, its
  descriptor. \<open>SCDescr\<close> is an array of \<open>kNumSizeClasses\<close> entries; the small-size branch
  indexes it with a \<open>uint8_t\<close> computed from \<open>Size\<close>, which for \<open>Size = 0\<close> is 255
  and reads past the array.
\<close>

definition SizeToSizeClass :: "SizeClassDescr list \<Rightarrow> nat \<Rightarrow> fault + (nat \<times> SizeClassDescr)" where
  "SizeToSizeClass SCD Size =
     (if Size \<le> 256 then
        (let SC = ((((Size + 15) mod 2 ^ 64) div 16 + 2 ^ 64 - 1) mod 2 ^ 64) mod 2 ^ 8 in
         if SC < kNumSizeClasses then Inr (SC, SCD ! SC) else Inl OutOfBounds)
      else Inr (SizeToSizeClass_loop SCD Size 0))"

definition SizeClassToSize :: "SizeClassDescr list \<Rightarrow> nat \<Rightarrow> nat" where
  "SizeClassToSize SCD sc = ChunkSize (SCD ! sc)"

section \<open>Searching the state bytes (\<open>FindByte_Plain\<close>, \<open>FindByte_PEXT\<close>)\<close>

text \<open>
  \<open>enum state_t\<close>: one byte per chunk.
\<close>

definition AVAILABLE :: u8 where "AVAILABLE = 0"
definition USED_MIXED :: u8 where "USED_MIXED = 1"
definition USED_DATA :: u8 where "USED_DATA = 3"
definition QUARANTINED :: u8 where "QUARANTINED = 5"
definition MARKED :: u8 where "MARKED = 7"
definition RELEASING :: u8 where "RELEASING = 255"

text \<open>
  Both searches return a \<open>size_t\<close>, with \<open>(size_t)-1\<close> for "not found". A byte array
  is the function from an index to the byte at \<open>Bytes[index]\<close>. Indices and loop counters
  are \<open>size_t\<close>; no object is larger than \<open>PTRDIFF_MAX\<close> bytes, and for \<open>N < 2 ^ 63\<close> none
  of the sums below reaches \<open>2 ^ 64\<close>, so they are taken in the naturals. The callback is a
  function of the position alone.
\<close>

definition size_t_minus_1 :: nat where
  "size_t_minus_1 = 2 ^ 64 - 1"

function FindByte_Plain_loop :: "(nat \<Rightarrow> u8) \<Rightarrow> u8 \<Rightarrow> nat \<Rightarrow> nat \<Rightarrow> (nat \<Rightarrow> bool) \<Rightarrow> nat \<Rightarrow> nat" where
  "FindByte_Plain_loop Bytes Value N StartPosHint CB I =
     (if I < N then
        (let Idx = I + StartPosHint;
             Idx = (if Idx \<ge> N then Idx - N else Idx)
         in if Bytes Idx = Value \<and> CB Idx then Idx
            else FindByte_Plain_loop Bytes Value N StartPosHint CB (I + 1))
      else size_t_minus_1)"
  by pat_completeness auto
termination
  by (relation "measure (\<lambda>(Bytes, Value, N, StartPosHint, CB, I). N - I)") auto

declare FindByte_Plain_loop.simps [simp del]

definition FindByte_Plain :: "(nat \<Rightarrow> u8) \<Rightarrow> u8 \<Rightarrow> nat \<Rightarrow> nat \<Rightarrow> (nat \<Rightarrow> bool) \<Rightarrow> fault + nat" where
  "FindByte_Plain Bytes Value N StartPosHint CB =
     (if StartPosHint > N then Inl Trap
      else Inr (FindByte_Plain_loop Bytes Value N StartPosHint CB 0))"

text \<open>
  \<open>_pext_u64(src, mask)\<close>: the bits of \<open>src\<close> at the positions where \<open>mask\<close> is set,
  packed into the low bits of the result in the same order.
\<close>

definition pext_u64 :: "u64 \<Rightarrow> u64 \<Rightarrow> u64" where
  "pext_u64 src msk = horner_sum of_bool 2 (map (bit src) (filter (bit msk) [0..<64]))"

text \<open>The unaligned little-endian load \<open>*reinterpret_cast<uint64_t*>(&Bytes[Idx])\<close>.\<close>

definition load_u64 :: "(nat \<Rightarrow> u8) \<Rightarrow> nat \<Rightarrow> u64" where
  "load_u64 Bytes Idx = word_rcat (rev (map (\<lambda>k. Bytes (Idx + k)) [0..<8]))"

text \<open>
  \<open>__builtin_ctz\<close>: the number of trailing zero bits. Its argument is an \<open>unsigned int\<close>;
  the only caller passes a mask that was just reduced with \<open>& 0xFF\<close>, so the conversion
  from \<open>uint64_t\<close> loses nothing and the count is taken on the 64-bit value. The result
  for 0 is undefined in the source, and never asked for.
\<close>

definition builtin_ctz :: "u64 \<Rightarrow> nat" where
  "builtin_ctz w = length (takeWhile Not (map (bit w) [0..<64]))"

text \<open>
  Two facts about \<open>builtin_ctz\<close> that the termination of the inner loop rests on:
  it names a set bit of a non-zero word, and clearing that bit makes the word smaller.
\<close>

lemma builtin_ctz_le: "builtin_ctz w \<le> 64"
  unfolding builtin_ctz_def
  using length_takeWhile_le[of Not "map (bit w) [0..<64]"] by simp

lemma builtin_ctz_least: "n < builtin_ctz w \<Longrightarrow> \<not> bit w n"
proof -
  let ?xs = "map (bit w) [0..<64]"
  assume n: "n < builtin_ctz w"
  then have n': "n < length (takeWhile Not ?xs)" by (simp add: builtin_ctz_def)
  then have "takeWhile Not ?xs ! n \<in> set (takeWhile Not ?xs)" by (rule nth_mem)
  then have "\<not> takeWhile Not ?xs ! n" by (auto dest: set_takeWhileD)
  moreover have "takeWhile Not ?xs ! n = ?xs ! n" using n' by (rule takeWhile_nth)
  moreover have "n < 64" using n builtin_ctz_le[of w] by simp
  ultimately show ?thesis by simp
qed

lemma builtin_ctz_bit:
  fixes w :: u64
  assumes "w \<noteq> 0"
  shows "bit w (builtin_ctz w)"
proof -
  let ?xs = "map (bit w) [0..<64]"
  have "builtin_ctz w < 64"
  proof (rule ccontr)
    assume "\<not> builtin_ctz w < 64"
    then have "\<forall>n<64. \<not> bit w n" using builtin_ctz_least[of _ w] by auto
    then have "w = 0" by (intro bit_word_eqI) simp
    with assms show False by simp
  qed
  then have "length (takeWhile Not ?xs) < length ?xs" by (simp add: builtin_ctz_def)
  then have "\<not> Not (?xs ! length (takeWhile Not ?xs))" by (rule nth_length_takeWhile)
  then show ?thesis using \<open>builtin_ctz w < 64\<close> by (simp add: builtin_ctz_def)
qed

lemma clear_lowest_less:
  fixes w :: u64
  assumes "bit w n"
  shows "unat (w AND NOT (push_bit n 1)) < unat w"
proof -
  have le: "w AND NOT (push_bit n 1) \<le> w" by (rule word_and_le2)
  have "w AND NOT (push_bit n 1) \<noteq> w"
  proof
    assume "w AND NOT (push_bit n 1) = w"
    then have "bit (w AND NOT (push_bit n 1)) n = bit w n" by simp
    then show False using assms by (simp add: bit_simps)
  qed
  with le have "w AND NOT (push_bit n 1) < w" by simp
  then show ?thesis by (simp add: word_less_nat_alt)
qed

lemma clear_lowest_less_pow:
  fixes w :: u64
  assumes "bit w n"
  shows "unat (w AND NOT (2 ^ n)) < unat w"
  using clear_lowest_less[OF assms] by simp

text \<open>
  The inner \<open>while (Mask)\<close> loop of \<open>FindByte_PEXT\<close>: \<open>Some Pos\<close> when the callback
  accepts \<open>Pos\<close> (the function returns), \<open>None\<close> when the mask runs out or the loop
  breaks at \<open>Pos >= N\<close> (the outer loop goes on).
\<close>

function FindByte_PEXT_inner :: "nat \<Rightarrow> (nat \<Rightarrow> bool) \<Rightarrow> nat \<Rightarrow> u64 \<Rightarrow> nat option" where
  "FindByte_PEXT_inner N CB Idx Mask =
     (if Mask = 0 then None
      else
        (let BitIdx = builtin_ctz Mask;
             Mask' = Mask AND NOT (push_bit BitIdx 1);
             Pos = Idx + BitIdx
         in if Pos \<ge> N then None
            else if CB Pos then Some Pos
            else FindByte_PEXT_inner N CB Idx Mask'))"
  by pat_completeness auto
termination
  by (relation "measure (\<lambda>(N, CB, Idx, Mask). unat Mask)")
     (auto intro!: clear_lowest_less_pow builtin_ctz_bit)

declare FindByte_PEXT_inner.simps [simp del]

text \<open>The outer \<open>for (I = 0; I < N; I += 8)\<close> loop of \<open>FindByte_PEXT\<close>.\<close>

function FindByte_PEXT_loop :: "(nat \<Rightarrow> u8) \<Rightarrow> nat \<Rightarrow> nat \<Rightarrow> nat \<Rightarrow> (nat \<Rightarrow> bool) \<Rightarrow> nat \<Rightarrow> nat" where
  "FindByte_PEXT_loop Bytes N NRounded Hint CB I =
     (if I < N then
        (let Idx = I + Hint;
             Idx = (if Idx \<ge> NRounded then Idx - NRounded else Idx);
             Tuple = load_u64 Bytes Idx;
             Mask = pext_u64 Tuple 0x0101010101010101;
             Mask = (NOT Mask) AND 0xFF
         in case FindByte_PEXT_inner N CB Idx Mask of
              Some Pos \<Rightarrow> Pos
            | None \<Rightarrow> FindByte_PEXT_loop Bytes N NRounded Hint CB (I + 8))
      else size_t_minus_1)"
  by pat_completeness auto
termination
  by (relation "measure (\<lambda>(Bytes, N, NRounded, Hint, CB, I). N - I)") auto

declare FindByte_PEXT_loop.simps [simp del]

text \<open>\<open>FindByte_PEXT\<close>; the \<open>assert(Value == 0)\<close> comes first.\<close>

definition FindByte_PEXT :: "(nat \<Rightarrow> u8) \<Rightarrow> u8 \<Rightarrow> nat \<Rightarrow> nat \<Rightarrow> (nat \<Rightarrow> bool) \<Rightarrow> fault + nat" where
  "FindByte_PEXT Bytes Value N StartPosHint CB =
     (if Value \<noteq> 0 then Inl AssertFail
      else
        (let NRounded = RoundUpTo N 8;
             Hint = RoundDownTo StartPosHint 8
         in if StartPosHint > N then Inl Trap
            else Inr (FindByte_PEXT_loop Bytes N NRounded Hint CB 0)))"

text \<open>
  Two names for stating what the loops do: the position that iteration \<open>i\<close> of a
  rotating loop looks at (\<open>Idx = I + Hint; if (Idx >= N) Idx -= N\<close>), and the mask that
  \<open>FindByte_PEXT\<close> computes for the eight bytes at \<open>Idx\<close>.
\<close>

definition rotate_idx :: "nat \<Rightarrow> nat \<Rightarrow> nat \<Rightarrow> nat" where
  "rotate_idx N H i = (if i + H \<ge> N then i + H - N else i + H)"

definition PEXT_mask :: "(nat \<Rightarrow> u8) \<Rightarrow> nat \<Rightarrow> u64" where
  "PEXT_mask Bytes Idx = (NOT (pext_u64 (load_u64 Bytes Idx) 0x0101010101010101)) AND 0xFF"

section \<open>The process state\<close>

text \<open>
  \<open>struct MallocConfig\<close> (mtmalloc\_config.h), the fields the allocator reads:
  \<open>UseTag\<close> is a 2-bit field clamped to 0..2, \<open>QuarantineSize\<close> an 8-bit field.
\<close>

record MallocConfig =
  UseTag :: nat
  UseShadow :: bool
  UseAliases :: bool
  QuarantineSize :: nat

text \<open>
  One thread and its allocator. \<open>Mem\<close> is the memory of the reserved region, byte by
  byte (chunk contents and the state arrays that live inside super pages). Each
  \<open>FixedShadow\<close> instance is a mapping of its own, indexed from its \<open>kShadowBeg\<close>:
  \<open>SuperPageMetadata\<close>, \<open>SecondRangeMeta\<close> and the two tag shadows. \<open>TLS_PerSC\<close> is
  the per-class pair of the thread's current super page (0 for the null pointer) and
  \<open>LastIdxHint\<close>. \<open>pthread_self_val\<close> is what \<open>pthread_self()\<close> returns on this thread.
\<close>

record Allocator =
  Config :: MallocConfig
  SCDescr :: "SizeClassDescr list"
  InitAllOnce :: bool
  SuperPageMetadata :: "nat \<Rightarrow> u8"
  SecondRangeMeta :: "nat \<Rightarrow> u8"
  SmallShadow :: "nat \<Rightarrow> u8"
  LargeShadow :: "nat \<Rightarrow> u8"
  Mem :: "nat \<Rightarrow> u8"
  NumSuperPages :: "nat \<Rightarrow> nat"
  DataOnlyScopeLevel :: nat
  BytesInQuarantine :: nat
  LastQurantineSize :: nat
  NumScans :: nat
  ScanPos :: "nat \<Rightarrow> nat"
  TLS_Rand :: u32
  TLS_LocalQuarantineSize :: nat
  TLS_PerSC :: "nat \<Rightarrow> nat \<times> nat"
  pthread_self_val :: nat

text \<open>
  A \<open>for\<close> loop over a range whose body can fault: the body runs on each element in
  turn, and the first fault ends the loop.
\<close>

primrec for_each :: "('a \<Rightarrow> 's \<Rightarrow> fault + 's) \<Rightarrow> 'a list \<Rightarrow> 's \<Rightarrow> fault + 's" where
  "for_each body [] s = Inr s"
| "for_each body (x # xs) s =
     (case body x s of Inl f \<Rightarrow> Inl f | Inr s' \<Rightarrow> for_each body xs s')"

subsection \<open>Shadow maps (mtmalloc\_shadow.h)\<close>

text \<open>
  \<open>FixedShadow<kShadowBeg, kBeg, kSize, kGranularity>\<close>: \<open>IsMine\<close>, the offset of
  \<open>GetShadowPtr(Val)\<close> from \<open>kShadowBeg\<close> (the subtraction is in \<open>uintptr_t\<close>),
  and \<open>SetRange\<close>, which traps on an unaligned address or size.
\<close>

definition FixedShadow_IsMine :: "nat \<Rightarrow> nat \<Rightarrow> nat \<Rightarrow> bool" where
  "FixedShadow_IsMine kBeg kSize Val \<longleftrightarrow> Val \<ge> kBeg \<and> Val < kBeg + kSize"

definition FixedShadow_Index :: "nat \<Rightarrow> nat \<Rightarrow> nat \<Rightarrow> nat" where
  "FixedShadow_Index kBeg kGranularity Val = ((Val + 2 ^ 64 - kBeg) mod 2 ^ 64) div kGranularity"

definition FixedShadow_SetRange ::
  "nat \<Rightarrow> nat \<Rightarrow> (nat \<Rightarrow> u8) \<Rightarrow> nat \<Rightarrow> nat \<Rightarrow> u8 \<Rightarrow> fault + (nat \<Rightarrow> u8)" where
  "FixedShadow_SetRange kBeg kGranularity shadow Beg Size ShadowVal =
     (if Beg mod kGranularity \<noteq> 0 then Inl Trap
      else if Size mod kGranularity \<noteq> 0 then Inl Trap
      else Inr (fold (\<lambda>k sh. sh(FixedShadow_Index kBeg kGranularity Beg + k := ShadowVal))
                  [0..<Size div kGranularity] shadow))"

subsection \<open>Address and memory tags (mtmalloc\_tags.h of mtmalloc)\<close>

text \<open>
  The small shadow covers the first half of the region with one byte per 16 bytes, the
  large shadow the second half with one byte per \<open>kSizeAlignmentForSecondRange\<close> bytes.
\<close>

definition SetMemoryTag :: "Allocator \<Rightarrow> nat \<Rightarrow> nat \<Rightarrow> u8 \<Rightarrow> fault + Allocator" where
  "SetMemoryTag st Addr Size Tag =
     (if \<not> UseShadow (Config st) then Inr st
      else if FixedShadow_IsMine kAllocatorSpace (kAllocatorSize div 2) Addr then
        (case FixedShadow_SetRange kAllocatorSpace 16 (SmallShadow st) Addr Size Tag of
           Inl f \<Rightarrow> Inl f
         | Inr sh \<Rightarrow> Inr (st\<lparr>SmallShadow := sh\<rparr>))
      else if FixedShadow_IsMine (kAllocatorSpace + kAllocatorSize div 2) (kAllocatorSize div 2) Addr then
        (case FixedShadow_SetRange (kAllocatorSpace + kAllocatorSize div 2)
                kSizeAlignmentForSecondRange (LargeShadow st) Addr Size Tag of
           Inl f \<Rightarrow> Inl f
         | Inr sh \<Rightarrow> Inr (st\<lparr>LargeShadow := sh\<rparr>))
      else Inl Trap)"

definition GetMemoryTag :: "Allocator \<Rightarrow> nat \<Rightarrow> fault + u8" where
  "GetMemoryTag st Addr =
     (if \<not> UseShadow (Config st) then Inr 0
      else if FixedShadow_IsMine kAllocatorSpace (kAllocatorSize div 2) Addr then
        Inr (SmallShadow st (FixedShadow_Index kAllocatorSpace 16 Addr))
      else if FixedShadow_IsMine (kAllocatorSpace + kAllocatorSize div 2) (kAllocatorSize div 2) Addr then
        Inr (LargeShadow st (FixedShadow_Index (kAllocatorSpace + kAllocatorSize div 2)
                               kSizeAlignmentForSecondRange Addr))
      else Inl Trap)"

definition ApplyAddressTag :: "MallocConfig \<Rightarrow> nat \<Rightarrow> u8 \<Rightarrow> nat" where
  "ApplyAddressTag cfg Addr AddrTag =
     (if \<not> UseAliases cfg then Addr
      else
        (let Ptr = (word_of_nat Addr :: u64);
             Tag = push_bit 40 ((ucast AddrTag :: u64) AND 15);
             Mask = push_bit 40 (15 :: u64)
         in unat ((Ptr AND NOT Mask) OR Tag)))"

definition GetAddressTag :: "nat \<Rightarrow> u8" where
  "GetAddressTag Addr = ucast (drop_bit 40 (word_of_nat Addr :: u64) AND 15)"

section \<open>Super pages (\<open>struct SuperPage\<close>)\<close>

text \<open>
  A super page is its address \<open>This\<close>. \<open>GetSizeClass\<close> reads the class byte of a super
  page from \<open>SuperPageMetadata\<close>, which has one byte per \<open>kSuperPageSize\<close> of the region;
  \<open>SetSizeClass\<close> writes it.
\<close>

definition kPrimaryMetaSize :: nat where
  "kPrimaryMetaSize = kAllocatorSize div kSuperPageSize"

definition GetSizeClass :: "Allocator \<Rightarrow> nat \<Rightarrow> fault + u8" where
  "GetSizeClass st Ptr =
     (if \<not> FixedShadow_IsMine kAllocatorSpace kAllocatorSize Ptr then Inl Trap
      else Inr (SuperPageMetadata st (FixedShadow_Index kAllocatorSpace kSuperPageSize Ptr)))"

definition SetSizeClass :: "Allocator \<Rightarrow> nat \<Rightarrow> u8 \<Rightarrow> fault + Allocator" where
  "SetSizeClass st Ptr SC =
     (if \<not> FixedShadow_IsMine kAllocatorSpace kAllocatorSize Ptr then Inl Trap
      else if Ptr mod kSuperPageSize \<noteq> 0 then Inl Trap
      else Inr (st\<lparr>SuperPageMetadata :=
                  (SuperPageMetadata st)(FixedShadow_Index kAllocatorSpace kSuperPageSize Ptr := SC)\<rparr>))"

text \<open>\<open>GetSCD\<close>: the descriptor of the super page's class, read from the table \<open>SCDescr\<close>.\<close>

definition GetSCD :: "Allocator \<Rightarrow> nat \<Rightarrow> fault + SizeClassDescr" where
  "GetSCD st This =
     (case GetSizeClass st This of
        Inl f \<Rightarrow> Inl f
      | Inr v \<Rightarrow> if unat v < length (SCDescr st) then Inr (SCDescr st ! unat v) else Inl OutOfBounds)"

text \<open>
  \<open>State(NumChunks, RangeNum)\<close> points at the state array of the super page: at the tail
  of the super page itself for range 0, into \<open>SecondRangeMeta\<close> for range 1.

  Modelled from the spec: the five-parameter \<open>FixedShadow\<close> that \<open>SecondRangeMeta\<close>
  instantiates is not among the sources. The spec puts the range-1 state bytes in a
  separate shadow at granularity \<open>kSizeAlignmentForSecondRange\<close>, which gives every
  super page of the second range \<open>kSuperPageSize / kSizeAlignmentForSecondRange\<close> bytes,
  starting at that multiple of its index.
\<close>

datatype state_ptr = InSuperPage nat | InSecondRangeMeta nat

definition SecondRangeMeta_Index :: "nat \<Rightarrow> nat" where
  "SecondRangeMeta_Index This =
     FixedShadow_Index (kFirstSuperPage 1) kSuperPageSize This
       * (kSuperPageSize div kSizeAlignmentForSecondRange)"

definition State :: "nat \<Rightarrow> nat \<Rightarrow> nat \<Rightarrow> state_ptr" where
  "State This N R =
     (if R = 1 then InSecondRangeMeta (SecondRangeMeta_Index This)
      else InSuperPage (This + kSuperPageSize - SizeOfInlineMeta N 0))"

definition load_state :: "Allocator \<Rightarrow> state_ptr \<Rightarrow> nat \<Rightarrow> u8" where
  "load_state st S i =
     (case S of InSuperPage a \<Rightarrow> Mem st (a + i) | InSecondRangeMeta a \<Rightarrow> SecondRangeMeta st (a + i))"

definition store_state :: "Allocator \<Rightarrow> state_ptr \<Rightarrow> nat \<Rightarrow> u8 \<Rightarrow> Allocator" where
  "store_state st S i v =
     (case S of
        InSuperPage a \<Rightarrow> st\<lparr>Mem := (Mem st)(a + i := v)\<rparr>
      | InSecondRangeMeta a \<Rightarrow> st\<lparr>SecondRangeMeta := (SecondRangeMeta st)(a + i := v)\<rparr>)"

definition AddressOfChunk :: "nat \<Rightarrow> nat \<Rightarrow> SizeClassDescr \<Rightarrow> nat" where
  "AddressOfChunk This Idx SCD = This + Idx * ChunkSize SCD"

text \<open>
  \<open>IterateStates\<close> with a callback that rewrites the byte it is given, and
  \<open>CountStates\<close>.
\<close>

definition IterateStates :: "Allocator \<Rightarrow> nat \<Rightarrow> (u8 \<Rightarrow> u8) \<Rightarrow> fault + Allocator" where
  "IterateStates st This CB =
     (case GetSCD st This of
        Inl f \<Rightarrow> Inl f
      | Inr SCD \<Rightarrow>
          (let N = NumChunks SCD; S = State This N (RangeNum SCD)
           in Inr (fold (\<lambda>i s. store_state s S i (CB (load_state s S i))) [0..<N] st)))"

definition CountStates :: "Allocator \<Rightarrow> nat \<Rightarrow> u8 \<Rightarrow> fault + nat" where
  "CountStates st This v =
     (case GetSCD st This of
        Inl f \<Rightarrow> Inl f
      | Inr SCD \<Rightarrow>
          (let N = NumChunks SCD; S = State This N (RangeNum SCD)
           in Inr (length (filter (\<lambda>i. load_state st S i = v) [0..<N]))))"

text \<open>
  \<open>TryAllocate\<close>. The callback \<open>TryPos\<close> is a compare-and-swap of the state byte from
  \<open>AVAILABLE\<close> to the new state. With one thread it succeeds exactly when the byte is
  \<open>AVAILABLE\<close>, and it writes only when it succeeds, which ends the search: the search
  runs with the test, and the write follows it. The result is the returned pointer
  (0 for \<open>nullptr\<close>), the new value of \<open>*HintPtr\<close>, and the state.
\<close>

definition TryAllocate ::
  "Allocator \<Rightarrow> nat \<Rightarrow> bool \<Rightarrow> SizeClassDescr \<Rightarrow> nat \<Rightarrow> fault + (nat \<times> nat \<times> Allocator)" where
  "TryAllocate st This DataOnly SCD Hint =
     (let N = NumChunks SCD;
          S = State This N (RangeNum SCD);
          NewState = (if DataOnly then USED_DATA else USED_MIXED);
          TryPos = (\<lambda>Pos. load_state st S Pos = AVAILABLE)
      in case FindByte_PEXT (load_state st S) AVAILABLE N Hint TryPos of
           Inl f \<Rightarrow> Inl f
         | Inr Pos \<Rightarrow>
             if Pos = size_t_minus_1 then Inr (0, Hint, st)
             else if Pos \<ge> N then Inl Trap
             else
               (let st' = store_state st S Pos NewState;
                    Res = AddressOfChunk This Pos SCD
                in case GetMemoryTag st' Res of
                     Inl f \<Rightarrow> Inl f
                   | Inr Tag \<Rightarrow> Inr (ApplyAddressTag (Config st') Res Tag, Pos + 1, st')))"

text \<open>
  \<open>ComputeStatePtr\<close>: the index of the chunk that \<open>Ptr\<close> starts, by the multiplication in
  place of the division; the state byte is \<open>State(...)[Idx]\<close>.
\<close>

definition ComputeStatePtr :: "nat \<Rightarrow> SizeClassDescr \<Rightarrow> fault + nat" where
  "ComputeStatePtr Ptr SCD =
     (let Offset = Ptr mod kSuperPageSize;
          Idx = DivBySizeViaMul Offset (ChunkSizeMulDiv SCD)
      in if Idx * ChunkSize SCD \<noteq> Offset then Inl Trap
         else if Idx \<ge> NumChunks SCD then Inl Trap
         else Inr Idx)"

definition Mark :: "Allocator \<Rightarrow> nat \<Rightarrow> nat \<Rightarrow> fault + Allocator" where
  "Mark st This P =
     (let P = P mod kSuperPageSize
      in case GetSCD st This of
           Inl f \<Rightarrow> Inl f
         | Inr SCD \<Rightarrow>
             (let N = NumChunks SCD;
                  Idx = DivBySizeViaMul P (ChunkSizeMulDiv SCD)
              in if Idx \<ge> N then Inr st
                 else
                   (let S = State This N (RangeNum SCD)
                    in if load_state st S Idx = QUARANTINED
                       then Inr (store_state st S Idx MARKED)
                       else Inr st)))"

definition MoveFromQuarantineToAvailable :: "Allocator \<Rightarrow> nat \<Rightarrow> fault + Allocator" where
  "MoveFromQuarantineToAvailable st This =
     IterateStates st This
       (\<lambda>S. let S = (if S = QUARANTINED then AVAILABLE else S)
            in if S = MARKED then QUARANTINED else S)"

text \<open>
  \<open>ExchangeAndCheckForDoubleFree\<close>: a load, then the store, then the check of what was
  loaded.
\<close>

definition ExchangeAndCheckForDoubleFree ::
  "Allocator \<Rightarrow> state_ptr \<Rightarrow> nat \<Rightarrow> u8 \<Rightarrow> fault + Allocator" where
  "ExchangeAndCheckForDoubleFree st S Idx NewValue =
     (let OldValue = load_state st S Idx;
          st' = store_state st S Idx NewValue
      in if OldValue \<noteq> USED_MIXED \<and> OldValue \<noteq> USED_DATA then Inl DoubleFree
         else Inr st')"

text \<open>\<open>UpdateMemoryTagOnFree\<close> returns the new tag.\<close>

definition UpdateMemoryTagOnFree :: "Allocator \<Rightarrow> nat \<Rightarrow> nat \<Rightarrow> fault + (u8 \<times> Allocator)" where
  "UpdateMemoryTagOnFree st P Size =
     (if \<not> UseShadow (Config st) then Inr (0, st)
      else
        (case GetMemoryTag st P of
           Inl f \<Rightarrow> Inl f
         | Inr OldMemoryTag \<Rightarrow>
             (let NewMemoryTag = OldMemoryTag + 1
              in case SetMemoryTag st P Size NewMemoryTag of
                   Inl f \<Rightarrow> Inl f
                 | Inr st' \<Rightarrow> Inr (NewMemoryTag, st'))))"

definition SuperPage_Deallocate :: "Allocator \<Rightarrow> nat \<Rightarrow> nat \<Rightarrow> fault + Allocator" where
  "SuperPage_Deallocate st This Ptr =
     (case GetSCD st This of
        Inl f \<Rightarrow> Inl f
      | Inr SCD \<Rightarrow>
          (case ComputeStatePtr Ptr SCD of
             Inl f \<Rightarrow> Inl f
           | Inr Idx \<Rightarrow>
               (case UpdateMemoryTagOnFree st Ptr (ChunkSize SCD) of
                  Inl f \<Rightarrow> Inl f
                | Inr (NewTag, st') \<Rightarrow>
                    ExchangeAndCheckForDoubleFree st'
                      (State This (NumChunks SCD) (RangeNum SCD)) Idx AVAILABLE)))"

text \<open>\<open>SuperPage::Quarantine\<close> returns the number of bytes that went into quarantine.\<close>

definition SuperPage_Quarantine :: "Allocator \<Rightarrow> nat \<Rightarrow> nat \<Rightarrow> fault + (nat \<times> Allocator)" where
  "SuperPage_Quarantine st This Ptr =
     (case GetSCD st This of
        Inl f \<Rightarrow> Inl f
      | Inr SCD \<Rightarrow>
          (case ComputeStatePtr Ptr SCD of
             Inl f \<Rightarrow> Inl f
           | Inr Idx \<Rightarrow>
               (case UpdateMemoryTagOnFree st Ptr (ChunkSize SCD) of
                  Inl f \<Rightarrow> Inl f
                | Inr (NewTag, st') \<Rightarrow>
                    (let NewValue = QUARANTINED;
                         NewValue = (if UseTag (Config st') = 1 \<and> (NewTag AND 15) \<noteq> 0
                                     then AVAILABLE else NewValue);
                         NewValue = (if UseTag (Config st') = 2 \<and> (NewTag AND 255) \<noteq> 0
                                     then AVAILABLE else NewValue)
                     in case ExchangeAndCheckForDoubleFree st'
                               (State This (NumChunks SCD) (RangeNum SCD)) Idx NewValue of
                          Inl f \<Rightarrow> Inl f
                        | Inr st'' \<Rightarrow>
                            if NewValue = AVAILABLE then Inr (0, st'')
                            else Inr (ChunkSize SCD, st'')))))"

subsection \<open>The mark phase on one super page\<close>

text \<open>
  The inner loop of \<open>MarkAllLivePointers\<close> over the words of one chunk:
  \<open>for (Word = P; Word < P + ChunkSize; Word += sizeof(void *))\<close>. A word whose value
  lies in the allocated part of either range is handed to \<open>Mark\<close> of the super page
  that contains it; the two range tests subtract in \<open>uintptr_t\<close>.
\<close>

definition in_allocated_range :: "nat \<Rightarrow> nat \<Rightarrow> nat \<Rightarrow> bool" where
  "in_allocated_range Value N0 N1 \<longleftrightarrow>
     \<not> ((Value + 2 ^ 64 - kFirstSuperPage 0) mod 2 ^ 64 \<ge> N0 * kSuperPageSize \<and>
        (Value + 2 ^ 64 - kFirstSuperPage 1) mod 2 ^ 64 \<ge> N1 * kSuperPageSize)"

function MarkWords :: "nat \<Rightarrow> nat \<Rightarrow> nat \<Rightarrow> nat \<Rightarrow> Allocator \<Rightarrow> fault + Allocator" where
  "MarkWords N0 N1 Word End st =
     (if Word < End then
        (let Value = unat (load_u64 (Mem st) Word)
         in if \<not> in_allocated_range Value N0 N1 then MarkWords N0 N1 (Word + 8) End st
            else
              (case Mark st (RoundDownTo Value kSuperPageSize) Value of
                 Inl f \<Rightarrow> Inl f
               | Inr st' \<Rightarrow> MarkWords N0 N1 (Word + 8) End st'))
      else Inr st)"
  by pat_completeness auto
termination
  by (relation "measure (\<lambda>(N0, N1, Word, End, st). End - Word)") auto

declare MarkWords.simps [simp del]

text \<open>
  \<open>MarkAllLivePointers(NumSuperPages)\<close>: every chunk of this super page whose state is
  \<open>USED_MIXED\<close> is scanned word by word. The state byte is read when the loop reaches
  the chunk.
\<close>

definition MarkAllLivePointers :: "nat \<Rightarrow> nat \<Rightarrow> nat \<Rightarrow> Allocator \<Rightarrow> fault + Allocator" where
  "MarkAllLivePointers N0 N1 This st =
     (case GetSCD st This of
        Inl f \<Rightarrow> Inl f
      | Inr SCD \<Rightarrow>
          (let S = State This (NumChunks SCD) (RangeNum SCD)
           in for_each
                (\<lambda>Idx s.
                   if load_state s S Idx = USED_MIXED then
                     (let P = AddressOfChunk This Idx SCD
                      in MarkWords N0 N1 P (P + ChunkSize SCD) s)
                   else Inr s)
                [0..<NumChunks SCD] st))"

section \<open>The allocator (\<open>struct Allocator\<close>)\<close>

definition GetSuperPage :: "nat \<Rightarrow> nat \<Rightarrow> fault + nat" where
  "GetSuperPage R Idx =
     (let Addr = kFirstSuperPage R + Idx * kSuperPageSize
      in if Addr \<ge> kAllocatorSpace + kAllocatorSize then Inl Trap else Inr Addr)"

text \<open>The ANSI C linear congruential generator \<open>RandR\<close>: the new state and the value.\<close>

definition RandR :: "u32 \<Rightarrow> u32 \<times> u32" where
  "RandR s = (let NewState = s * 1103515245 + 12345 in (NewState, drop_bit 16 NewState))"

subsection \<open>The stop-the-world scan, with one thread\<close>

text \<open>
  \<open>ScanLoop\<close> for one range: the thread claims batches of \<open>kPosIncrement = 1024\<close> super
  pages with \<open>fetch_add\<close> on \<open>ScanPos\<close> until the position passes the number of super
  pages. With no other thread the fetched positions are 0, 1024, 2048, ...; the
  position is a parameter of the loop here and is written back to \<open>ScanPos\<close> as the
  \<open>fetch_add\<close> does.
\<close>

function ScanLoop_range :: "nat \<Rightarrow> nat \<Rightarrow> nat \<Rightarrow> nat \<Rightarrow> Allocator \<Rightarrow> fault + Allocator" where
  "ScanLoop_range N0 N1 R Pos st =
     (let N = (if R = 0 then N0 else N1);
          st = st\<lparr>ScanPos := (ScanPos st)(R := Pos + 1024)\<rparr>
      in if Pos \<ge> N then Inr st
         else
           (let EndIdx = min N (Pos + 1024)
            in case for_each
                      (\<lambda>SPIdx s. case GetSuperPage R SPIdx of
                                    Inl f \<Rightarrow> Inl f
                                  | Inr SP \<Rightarrow> MarkAllLivePointers N0 N1 SP s)
                      [Pos..<EndIdx] st of
                 Inl f \<Rightarrow> Inl f
               | Inr st' \<Rightarrow> ScanLoop_range N0 N1 R (Pos + 1024) st'))"
  by pat_completeness auto
termination
  by (relation "measure (\<lambda>(N0, N1, R, Pos, st). (if R = 0 then N0 else N1) + 1024 - Pos)") auto

declare ScanLoop_range.simps [simp del]

definition ScanLoop :: "Allocator \<Rightarrow> fault + Allocator" where
  "ScanLoop st =
     (let N0 = NumSuperPages st 0; N1 = NumSuperPages st 1
      in case ScanLoop_range N0 N1 0 (ScanPos st 0) st of
           Inl f \<Rightarrow> Inl f
         | Inr st' \<Rightarrow> ScanLoop_range N0 N1 1 (ScanPos st' 1) st')"

text \<open>
  \<open>PostScan\<close>: every super page of both ranges moves its quarantined chunks to
  available and its marked chunks back to quarantined; the result is the number of
  bytes still in quarantine.
\<close>

definition PostScan_page :: "nat \<Rightarrow> nat \<Rightarrow> nat \<times> Allocator \<Rightarrow> fault + (nat \<times> Allocator)" where
  "PostScan_page R SPIdx acc =
     (case GetSuperPage R SPIdx of
        Inl f \<Rightarrow> Inl f
      | Inr SP \<Rightarrow>
          (case GetSCD (snd acc) SP of
             Inl f \<Rightarrow> Inl f
           | Inr SCD \<Rightarrow>
               (case MoveFromQuarantineToAvailable (snd acc) SP of
                  Inl f \<Rightarrow> Inl f
                | Inr st' \<Rightarrow>
                    (case CountStates st' SP QUARANTINED of
                       Inl f \<Rightarrow> Inl f
                     | Inr NowInQuorantine \<Rightarrow>
                         Inr (fst acc + ChunkSize SCD * NowInQuorantine, st')))))"

definition PostScan :: "Allocator \<Rightarrow> fault + (nat \<times> Allocator)" where
  "PostScan st =
     (case for_each (PostScan_page 0) [0..<NumSuperPages st 0] (0, st) of
        Inl f \<Rightarrow> Inl f
      | Inr acc \<Rightarrow> for_each (PostScan_page 1) [0..<NumSuperPages (snd acc) 1] acc)"

text \<open>
  \<open>Scan\<close>: reset the positions, (signal the other threads: there are none), run the
  mark loop and the post-scan pass, publish the new quarantine size.
\<close>

definition Scan :: "Allocator \<Rightarrow> fault + Allocator" where
  "Scan st =
     (let st = st\<lparr>ScanPos := (\<lambda>R. if R = 0 \<or> R = 1 then 0 else ScanPos st R)\<rparr>;
          st = st\<lparr>NumScans := NumScans st + 1\<rparr>
      in case ScanLoop st of
           Inl f \<Rightarrow> Inl f
         | Inr st' \<Rightarrow>
             (case PostScan st' of
                Inl f \<Rightarrow> Inl f
              | Inr (NewBytesInQuarantine, st'') \<Rightarrow>
                  Inr (st''\<lparr>BytesInQuarantine := NewBytesInQuarantine,
                            LastQurantineSize := NewBytesInQuarantine\<rparr>)))"

subsection \<open>Allocation\<close>

text \<open>
  \<open>AllocateSuperPage(Size)\<close>: the next super page of the class's range is mapped
  (\<open>mmap\<close> with \<open>MAP_FIXED | MAP_ANONYMOUS\<close> gives zero-filled memory in place of
  whatever was mapped there; a failing \<open>mmap\<close> is a trap and is not modelled), its class
  is recorded, every chunk gets a memory tag from \<open>RandR\<close>, and the super page is
  published by incrementing \<open>NumSuperPages\<close>. The alias mappings of \<open>UseAliases\<close> place
  the same memory at the tagged addresses and do not change \<open>Mem\<close>.
\<close>

definition mmap_fixed :: "Allocator \<Rightarrow> nat \<Rightarrow> nat \<Rightarrow> Allocator" where
  "mmap_fixed st Addr Len = st\<lparr>Mem := (\<lambda>a. if Addr \<le> a \<and> a < Addr + Len then 0 else Mem st a)\<rparr>"

definition SeedTag :: "nat \<Rightarrow> nat \<Rightarrow> nat \<Rightarrow> Allocator \<Rightarrow> fault + Allocator" where
  "SeedTag This CS i st =
     (let (NewState, Val) = RandR (TLS_Rand st);
          st = st\<lparr>TLS_Rand := NewState\<rparr>
      in SetMemoryTag st (This + i * CS) CS (ucast Val))"

definition AllocateSuperPage :: "Allocator \<Rightarrow> nat \<Rightarrow> fault + Allocator" where
  "AllocateSuperPage st Size =
     (case SizeToSizeClass (SCDescr st) Size of
        Inl f \<Rightarrow> Inl f
      | Inr (SC, SCD) \<Rightarrow>
          (case GetSuperPage (RangeNum SCD) (NumSuperPages st (RangeNum SCD)) of
             Inl f \<Rightarrow> Inl f
           | Inr Res \<Rightarrow>
               (let st = mmap_fixed st Res kSuperPageSize
                in case SetSizeClass st Res (word_of_nat SC) of
                     Inl f \<Rightarrow> Inl f
                   | Inr st \<Rightarrow>
                       (let CS = ChunkSize SCD
                        in case for_each (SeedTag Res CS)
                                  [0..<(if CS = 0 then 0 else NumChunks SCD)] st of
                             Inl f \<Rightarrow> Inl f
                           | Inr st \<Rightarrow>
                               Inr (st\<lparr>NumSuperPages :=
                                         (NumSuperPages st)(RangeNum SCD :=
                                            NumSuperPages st (RangeNum SCD) + 1)\<rparr>)))))"

text \<open>
  The \<open>for\<close> loop of \<open>AllocateSlower\<close> over the super pages of the range, starting at a
  random one: each super page of the wanted class becomes the thread's current one and
  is tried. \<open>Meta\<close> is \<open>kMeta[RangeNum]\<close>, the part of \<open>SuperPageMetadata\<close> that belongs
  to the range. The result is the pointer (0 when no super page had a free chunk).
\<close>

definition kMeta_Index :: "nat \<Rightarrow> nat \<Rightarrow> nat" where
  "kMeta_Index R Idx = (if R = 0 then 0 else kPrimaryMetaSize div 2) + Idx"

function AllocateSlower_for ::
  "nat \<Rightarrow> SizeClassDescr \<Rightarrow> nat \<Rightarrow> nat \<Rightarrow> nat \<Rightarrow> Allocator \<Rightarrow> fault + (nat \<times> Allocator)" where
  "AllocateSlower_for SC SCD N Offset I st =
     (if I < N then
        (let Idx = rotate_idx N Offset I
         in if SuperPageMetadata st (kMeta_Index (RangeNum SCD) Idx) = word_of_nat SC then
              (case GetSuperPage (RangeNum SCD) Idx of
                 Inl f \<Rightarrow> Inl f
               | Inr SP \<Rightarrow>
                   (let st = st\<lparr>TLS_PerSC := (TLS_PerSC st)(SC := (SP, snd (TLS_PerSC st SC)))\<rparr>
                    in case TryAllocate st SP (DataOnlyScopeLevel st \<noteq> 0) SCD (snd (TLS_PerSC st SC)) of
                         Inl f \<Rightarrow> Inl f
                       | Inr (Res, Hint, st') \<Rightarrow>
                           if Res \<noteq> 0
                           then Inr (Res, st'\<lparr>TLS_PerSC := (TLS_PerSC st')(SC := (SP, Hint))\<rparr>)
                           else AllocateSlower_for SC SCD N Offset (I + 1) st'))
            else AllocateSlower_for SC SCD N Offset (I + 1) st)
      else Inr (0, st))"
  by pat_completeness auto
termination
  by (relation "measure (\<lambda>(SC, SCD, N, Offset, I, st). N - I)") auto

declare AllocateSlower_for.simps [simp del]

text \<open>
  The \<open>while (true)\<close> loop of \<open>AllocateSlower\<close>: look through the super pages, and when
  none has a free chunk, add a super page and look again. Nothing in the loop itself
  bounds it, so not returning is \<open>None\<close>.
\<close>

partial_function (option) AllocateSlower_while ::
  "nat \<Rightarrow> nat \<Rightarrow> SizeClassDescr \<Rightarrow> Allocator \<Rightarrow> (fault + (nat \<times> Allocator)) option" where
  "AllocateSlower_while Size SC SCD st =
     (let N = NumSuperPages st (RangeNum SCD);
          (st, Offset) =
             (if N \<noteq> 0
              then (let (NewState, Val) = RandR (TLS_Rand st)
                    in (st\<lparr>TLS_Rand := NewState\<rparr>, unat Val mod N))
              else (st, 0))
      in case AllocateSlower_for SC SCD N Offset 0 st of
           Inl f \<Rightarrow> Some (Inl f)
         | Inr (Res, st) \<Rightarrow>
             if Res \<noteq> 0 then Some (Inr (Res, st))
             else
               (case AllocateSuperPage st Size of
                  Inl f \<Rightarrow> Some (Inl f)
                | Inr st \<Rightarrow>
                    AllocateSlower_while Size SC SCD
                      (st\<lparr>TLS_PerSC := (TLS_PerSC st)(SC := (fst (TLS_PerSC st SC), 0))\<rparr>)))"

text \<open>
  \<open>AllocateSlower\<close>: a thread whose \<open>TLS.Rand\<close> is 0 is seen for the first time;
  \<open>pthread_once\<close> runs \<open>InitAll\<close> if it has not run, and \<open>TLS.Rand\<close> becomes the low
  32 bits of \<open>pthread_self()\<close>. Then the class is looked up again, in the table as it
  is now.
\<close>

definition AllocateSlower :: "Allocator \<Rightarrow> nat \<Rightarrow> (fault + (nat \<times> Allocator)) option" where
  "AllocateSlower st Size =
     (case (if TLS_Rand st = 0 then
              (case (if InitAllOnce st then Inr st
                     else (case InitAll of
                             None \<Rightarrow> Inl AssertFail
                           | Some SCD \<Rightarrow> Inr (st\<lparr>SCDescr := SCD, InitAllOnce := True\<rparr>))) of
                 Inl f \<Rightarrow> Inl f
               | Inr st \<Rightarrow> Inr (st\<lparr>TLS_Rand := word_of_nat (pthread_self_val st)\<rparr>))
            else Inr st) of
        Inl f \<Rightarrow> Some (Inl f)
      | Inr st \<Rightarrow>
          (case SizeToSizeClass (SCDescr st) Size of
             Inl f \<Rightarrow> Some (Inl f)
           | Inr (SC, SCD) \<Rightarrow> AllocateSlower_while Size SC SCD st))"

text \<open>\<open>Allocator::Allocate\<close>: the thread's current super page of the class first.\<close>

definition Allocate :: "Allocator \<Rightarrow> nat \<Rightarrow> (fault + (nat \<times> Allocator)) option" where
  "Allocate st Size =
     (case SizeToSizeClass (SCDescr st) Size of
        Inl f \<Rightarrow> Some (Inl f)
      | Inr (SC, SCD) \<Rightarrow>
          (let (SP, Hint) = TLS_PerSC st SC
           in if SP \<noteq> 0 then
                (case TryAllocate st SP (DataOnlyScopeLevel st \<noteq> 0) SCD Hint of
                   Inl f \<Rightarrow> Some (Inl f)
                 | Inr (Res, Hint', st') \<Rightarrow>
                     if Res \<noteq> 0
                     then Some (Inr (Res, st'\<lparr>TLS_PerSC := (TLS_PerSC st')(SC := (SP, Hint'))\<rparr>))
                     else AllocateSlower st' Size)
              else AllocateSlower st Size))"

subsection \<open>Freeing\<close>

definition IsMine :: "Allocator \<Rightarrow> nat \<Rightarrow> bool" where
  "IsMine st P \<longleftrightarrow>
     (if UseAliases (Config st)
      then P \<ge> kAllocatorSpace \<and> P < kAllocatorSpace + 16 * kAllocatorSize
      else P \<ge> kAllocatorSpace \<and> P < kAllocatorSpace + kAllocatorSize)"

text \<open>
  \<open>RemoveAddressTagAndCheckForDoubleFree\<close>: with shadow and aliases both on, a pointer
  whose address tag differs from the memory tag of its chunk is a double free.
\<close>

definition RemoveAddressTagAndCheckForDoubleFree :: "Allocator \<Rightarrow> nat \<Rightarrow> fault + nat" where
  "RemoveAddressTagAndCheckForDoubleFree st Ptr =
     (let AddressTag = GetAddressTag Ptr;
          Ptr = ApplyAddressTag (Config st) Ptr 0
      in case GetMemoryTag st Ptr of
           Inl f \<Rightarrow> Inl f
         | Inr Tag \<Rightarrow>
             (let MemoryTag = Tag AND 15
              in if UseShadow (Config st) \<and> UseAliases (Config st) \<and> AddressTag \<noteq> MemoryTag
                 then Inl TagDoubleFree
                 else Inr Ptr))"

definition Deallocate :: "Allocator \<Rightarrow> nat \<Rightarrow> fault + Allocator" where
  "Deallocate st Ptr =
     (case RemoveAddressTagAndCheckForDoubleFree st Ptr of
        Inl f \<Rightarrow> Inl f
      | Inr Ptr \<Rightarrow>
          (let StartSP = RoundDownTo Ptr kSuperPageSize
           in if StartSP < kAllocatorSpace then Inl Trap
              else if StartSP \<ge> kAllocatorSpace + kAllocatorSize then Inl Trap
              else SuperPage_Deallocate st StartSP Ptr))"

text \<open>\<open>Allocator::Quarantine\<close>; the checks of \<open>A2SP\<close> follow those of the function itself.\<close>

definition Quarantine :: "Allocator \<Rightarrow> nat \<Rightarrow> fault + Allocator" where
  "Quarantine st Ptr =
     (case RemoveAddressTagAndCheckForDoubleFree st Ptr of
        Inl f \<Rightarrow> Inl f
      | Inr Ptr \<Rightarrow>
          (let StartSP = RoundDownTo Ptr kSuperPageSize
           in if StartSP < kAllocatorSpace then Inl Trap
              else if StartSP \<ge> kAllocatorSpace + kAllocatorSize then Inl Trap
              else if StartSP mod kSuperPageSize \<noteq> 0 then Inl Trap
              else
                (case SuperPage_Quarantine st StartSP Ptr of
                   Inl f \<Rightarrow> Inl f
                 | Inr (n, st') \<Rightarrow>
                     Inr (st'\<lparr>TLS_LocalQuarantineSize :=
                               (TLS_LocalQuarantineSize st' + n) mod 2 ^ 64\<rparr>))))"

definition kSizeOfLocalQuarantine :: nat where
  "kSizeOfLocalQuarantine = 2 ^ 20"

definition QuarantineAndMaybeScan :: "Allocator \<Rightarrow> nat \<Rightarrow> nat \<Rightarrow> fault + Allocator" where
  "QuarantineAndMaybeScan st Ptr MaxQuarantineSize =
     (case Quarantine st Ptr of
        Inl f \<Rightarrow> Inl f
      | Inr st \<Rightarrow>
          if TLS_LocalQuarantineSize st \<ge> kSizeOfLocalQuarantine then
            (let TotalQuarantineSize = (BytesInQuarantine st + TLS_LocalQuarantineSize st) mod 2 ^ 64;
                 st = st\<lparr>BytesInQuarantine := TotalQuarantineSize, TLS_LocalQuarantineSize := 0\<rparr>;
                 Limit = (MaxQuarantineSize + LastQurantineSize st) mod 2 ^ 64
             in if TotalQuarantineSize > Limit then
                  (if BytesInQuarantine st < Limit then Inr st else Scan st)
                else Inr st)
          else Inr st)"

section \<open>The C entry points (mtmalloc.cpp)\<close>

text \<open>
  \<open>malloc\<close>: sizes below 8 become 1; sizes above the largest class go to the large
  allocator, which is outside this model (\<open>LargeAllocation\<close> with the size passed on).
\<close>

datatype malloc_result = SmallPointer nat | LargeAllocation nat

definition malloc :: "Allocator \<Rightarrow> nat \<Rightarrow> (fault + (malloc_result \<times> Allocator)) option" where
  "malloc st sz =
     (let sz = (if sz < 8 then 1 else sz)
      in if sz > kMaxSizeClass then Some (Inr (LargeAllocation sz, st))
         else
           (case Allocate st sz of
              None \<Rightarrow> None
            | Some (Inl f) \<Rightarrow> Some (Inl f)
            | Some (Inr (res, st')) \<Rightarrow> Some (Inr (SmallPointer res, st'))))"

text \<open>
  \<open>posix_memalign(memptr, alignment, size)\<close>: the result is the return value and what
  was stored through \<open>memptr\<close>. Alignments above 4096 end in \<open>assert(0)\<close>.
\<close>

definition posix_memalign ::
  "Allocator \<Rightarrow> nat \<Rightarrow> nat \<Rightarrow> (fault + (int \<times> malloc_result \<times> Allocator)) option" where
  "posix_memalign st alignment sz =
     (if alignment \<le> 16 then
        (case malloc st sz of
           None \<Rightarrow> None
         | Some (Inl f) \<Rightarrow> Some (Inl f)
         | Some (Inr (p, st')) \<Rightarrow> Some (Inr (0, p, st')))
      else if alignment \<le> 4096 then
        (case malloc st (RoundDownTo sz alignment) of
           None \<Rightarrow> None
         | Some (Inl f) \<Rightarrow> Some (Inl f)
         | Some (Inr (p, st')) \<Rightarrow> Some (Inr (0, p, st')))
      else Some (Inl AssertFail))"

text \<open>
  The allocator of the tests and of a starting process: every byte of the object, of
  the thread's \<open>TLS\<close> and of the mappings is zero.
\<close>

definition zero_Allocator :: "MallocConfig \<Rightarrow> nat \<Rightarrow> Allocator" where
  "zero_Allocator cfg tid =
     \<lparr>Config = cfg,
      SCDescr = replicate kNumSizeClasses
                  \<lparr>RangeNum = 0, NumChunks = 0, ChunkSizeDiv16 = 0, ChunkSizeMulDiv = 0\<rparr>,
      InitAllOnce = False,
      SuperPageMetadata = (\<lambda>_. 0),
      SecondRangeMeta = (\<lambda>_. 0),
      SmallShadow = (\<lambda>_. 0),
      LargeShadow = (\<lambda>_. 0),
      Mem = (\<lambda>_. 0),
      NumSuperPages = (\<lambda>_. 0),
      DataOnlyScopeLevel = 0,
      BytesInQuarantine = 0,
      LastQurantineSize = 0,
      NumScans = 0,
      ScanPos = (\<lambda>_. 0),
      TLS_Rand = 0,
      TLS_LocalQuarantineSize = 0,
      TLS_PerSC = (\<lambda>_. (0, 0)),
      pthread_self_val = tid\<rparr>"

section \<open>Example states\<close>

text \<open>
  Two configurations, one without tags and one with shadow tagging and \<open>UseTag = 1\<close>,
  and a process that holds one super page of the 16-byte class at the start of the
  first range, whose first chunk is in use and carries the memory tag \<open>tag\<close>.
\<close>

definition plain_config :: MallocConfig where
  "plain_config = \<lparr>UseTag = 0, UseShadow = False, UseAliases = False, QuarantineSize = 0\<rparr>"

definition tagging_config :: MallocConfig where
  "tagging_config = \<lparr>UseTag = 1, UseShadow = True, UseAliases = False, QuarantineSize = 1\<rparr>"

definition one_used_chunk :: "MallocConfig \<Rightarrow> u8 \<Rightarrow> Allocator" where
  "one_used_chunk cfg tag =
     (zero_Allocator cfg 1)
       \<lparr>SCDescr := the InitAll, InitAllOnce := True,
        SmallShadow := (\<lambda>i. if i = 0 then tag else 0),
        Mem := (\<lambda>a. if a = kAllocatorSpace + kSuperPageSize - 30848 then USED_MIXED else 0),
        NumSuperPages := (\<lambda>R. if R = 0 then 1 else 0),
        TLS_Rand := 1,
        TLS_PerSC := (\<lambda>SC. if SC = 0 then (kAllocatorSpace, 1) else (0, 0))\<rparr>"

section \<open>Address and memory tags of memtagmalloc (memtagmalloc/src/mtmalloc\_tags.h)\<close>










section \<open>Vocabulary of the properties\<close>

text \<open>
  What a descriptor of the table guarantees about the layout of a super page of its
  class: the chunks and, in the first range, the state array behind them fit into
  the super page; in the second range the state bytes of a super page fit into its
  share of \<open>SecondRangeMeta\<close>.
\<close>

definition wf_SCD :: "SizeClassDescr \<Rightarrow> bool" where
  "wf_SCD d \<longleftrightarrow>
     RangeNum d \<le> 1 \<and> 0 < ChunkSizeDiv16 d \<and> 0 < NumChunks d \<and>
     SizeOfInlineMeta (NumChunks d) (RangeNum d) + NumChunks d * ChunkSize d \<le> kSuperPageSize \<and>
     NumChunks d \<le> SizeOfInlineMeta (NumChunks d) 0 \<and>
     SizeOfInlineMeta (NumChunks d) 0 \<le> kSuperPageSize \<and>
     (RangeNum d = 1 \<longrightarrow> NumChunks d \<le> kSuperPageSize div kSizeAlignmentForSecondRange)"

text \<open>
  Super pages are counted through the whole region: \<open>SPA g\<close> is the address of super
  page \<open>g\<close>, the first range holds the indices below \<open>2 ^ 20\<close> and the second range
  those from \<open>2 ^ 20\<close> on. A super page is mapped when \<open>AllocateSuperPage\<close> has
  created it, and an address is mapped when it lies in such a super page.
\<close>

definition SPA :: "nat \<Rightarrow> nat" where
  "SPA g = kAllocatorSpace + g * kSuperPageSize"

definition is_mapped :: "Allocator \<Rightarrow> nat \<Rightarrow> bool" where
  "is_mapped st g \<longleftrightarrow>
     g < NumSuperPages st 0 \<or> (2 ^ 20 \<le> g \<and> g < 2 ^ 20 + NumSuperPages st 1)"

definition mapped_addr :: "Allocator \<Rightarrow> nat \<Rightarrow> bool" where
  "mapped_addr st a \<longleftrightarrow>
     kAllocatorSpace \<le> a \<and> is_mapped st ((a - kAllocatorSpace) div kSuperPageSize)"

text \<open>
  The states of a process with one thread. Before the first allocation nothing has
  run (\<open>fresh\<close>). Afterwards (\<open>started\<close>) the table is the one that \<open>InitAll\<close> builds,
  neither range holds more super pages than fit into its half of the region, every
  mapped super page carries a class of its own range, and the thread's current super
  page of a class is a mapped super page of that class.
\<close>

definition fresh :: "Allocator \<Rightarrow> bool" where
  "fresh st \<longleftrightarrow>
     \<not> InitAllOnce st \<and> TLS_Rand st = 0 \<and> NumSuperPages st 0 = 0 \<and> NumSuperPages st 1 = 0 \<and>
     (\<forall>SC. fst (TLS_PerSC st SC) = 0)"

definition started :: "Allocator \<Rightarrow> bool" where
  "started st \<longleftrightarrow>
     InitAllOnce st \<and> InitAll = Some (SCDescr st) \<and>
     NumSuperPages st 0 \<le> 2 ^ 20 \<and> NumSuperPages st 1 \<le> 2 ^ 20 \<and>
     (\<forall>g. is_mapped st g \<longrightarrow>
        unat (SuperPageMetadata st g) < kNumSizeClasses \<and>
        RangeNum (SCDescr st ! unat (SuperPageMetadata st g)) = (if g < 2 ^ 20 then 0 else 1)) \<and>
     (\<forall>SC. fst (TLS_PerSC st SC) \<noteq> 0 \<longrightarrow>
        SC < kNumSizeClasses \<and>
        (\<exists>g. is_mapped st g \<and> fst (TLS_PerSC st SC) = SPA g \<and>
             SuperPageMetadata st g = word_of_nat SC))"

definition consistent :: "Allocator \<Rightarrow> bool" where
  "consistent st \<longleftrightarrow> fresh st \<or> started st"

text \<open>
  The state byte of the chunk that starts at \<open>Ptr\<close>, found the way \<open>Deallocate\<close> and
  \<open>Quarantine\<close> find it: the class of the super page, then \<open>ComputeStatePtr\<close>.
\<close>

definition ChunkState :: "Allocator \<Rightarrow> nat \<Rightarrow> fault + u8" where
  "ChunkState st Ptr =
     (let SP = RoundDownTo Ptr kSuperPageSize
      in case GetSCD st SP of
           Inl f \<Rightarrow> Inl f
         | Inr SCD \<Rightarrow>
             (case ComputeStatePtr Ptr SCD of
                Inl f \<Rightarrow> Inl f
              | Inr Idx \<Rightarrow> Inr (load_state st (State SP (NumChunks SCD) (RangeNum SCD)) Idx)))"

text \<open>The byte that \<open>State(...)[i]\<close> names.\<close>

definition shift_ptr :: "state_ptr \<Rightarrow> nat \<Rightarrow> state_ptr" where
  "shift_ptr S i = (case S of InSuperPage a \<Rightarrow> InSuperPage (a + i)
                            | InSecondRangeMeta a \<Rightarrow> InSecondRangeMeta (a + i))"

text \<open>
  What the steps of an allocation that hand out no chunk may change: they add super
  pages and leave the mapped ones, their classes and their state bytes as they are.
\<close>

definition grows :: "Allocator \<Rightarrow> Allocator \<Rightarrow> bool" where
  "grows st st' \<longleftrightarrow>
     Config st' = Config st \<and> DataOnlyScopeLevel st' = DataOnlyScopeLevel st \<and>
     (InitAllOnce st \<longrightarrow> InitAllOnce st' \<and> SCDescr st' = SCDescr st) \<and>
     NumSuperPages st 0 \<le> NumSuperPages st' 0 \<and> NumSuperPages st 1 \<le> NumSuperPages st' 1 \<and>
     (\<forall>g. is_mapped st g \<longrightarrow> SuperPageMetadata st' g = SuperPageMetadata st g) \<and>
     (\<forall>g x. is_mapped st g \<and> x < kSuperPageSize \<longrightarrow> Mem st' (SPA g + x) = Mem st (SPA g + x)) \<and>
     SecondRangeMeta st' = SecondRangeMeta st"

text \<open>
  A run of calls on the allocator. A fault ends the run; the result of a run that
  ends without one is the list of the pointers that its \<open>Allocate\<close> calls returned, in
  order, and the last state.
\<close>

datatype call = CallAllocate nat | CallDeallocate nat | CallQuarantine nat | CallScan

fun do_call :: "Allocator \<Rightarrow> call \<Rightarrow> (fault + (nat option \<times> Allocator)) option" where
  "do_call st (CallAllocate n) =
     (case Allocate st n of
        None \<Rightarrow> None
      | Some (Inl f) \<Rightarrow> Some (Inl f)
      | Some (Inr (p, st')) \<Rightarrow> Some (Inr (Some p, st')))"
| "do_call st (CallDeallocate p) =
     (case Deallocate st p of Inl f \<Rightarrow> Some (Inl f) | Inr st' \<Rightarrow> Some (Inr (None, st')))"
| "do_call st (CallQuarantine p) =
     (case Quarantine st p of Inl f \<Rightarrow> Some (Inl f) | Inr st' \<Rightarrow> Some (Inr (None, st')))"
| "do_call st CallScan =
     (case Scan st of Inl f \<Rightarrow> Some (Inl f) | Inr st' \<Rightarrow> Some (Inr (None, st')))"

fun run_calls :: "Allocator \<Rightarrow> call list \<Rightarrow> (fault + (nat list \<times> Allocator)) option" where
  "run_calls st [] = Some (Inr ([], st))"
| "run_calls st (c # cs) =
     (case do_call st c of
        None \<Rightarrow> None
      | Some (Inl f) \<Rightarrow> Some (Inl f)
      | Some (Inr (r, st')) \<Rightarrow>
          (case run_calls st' cs of
             None \<Rightarrow> None
           | Some (Inl f) \<Rightarrow> Some (Inl f)
           | Some (Inr (ps, st'')) \<Rightarrow>
               Some (Inr ((case r of None \<Rightarrow> ps | Some p \<Rightarrow> p # ps), st''))))"

text \<open>
  The descriptor and the state array of super page \<open>g\<close>, by the class that
  \<open>SuperPageMetadata\<close> records for it.
\<close>

definition SCD_of :: "Allocator \<Rightarrow> nat \<Rightarrow> SizeClassDescr" where
  "SCD_of st g = SCDescr st ! unat (SuperPageMetadata st g)"

definition State_of :: "Allocator \<Rightarrow> nat \<Rightarrow> state_ptr" where
  "State_of st g = State (SPA g) (NumChunks (SCD_of st g)) (RangeNum (SCD_of st g))"

text \<open>What seeding and updating memory tags leaves as it is: all but the tag shadows and \<open>TLS.Rand\<close>.\<close>

definition tags_frame :: "Allocator \<Rightarrow> Allocator \<Rightarrow> bool" where
  "tags_frame st st' \<longleftrightarrow>
     Config st' = Config st \<and>
     SCDescr st' = SCDescr st \<and>
     InitAllOnce st' = InitAllOnce st \<and>
     SuperPageMetadata st' = SuperPageMetadata st \<and>
     SecondRangeMeta st' = SecondRangeMeta st \<and>
     Mem st' = Mem st \<and>
     NumSuperPages st' = NumSuperPages st \<and>
     DataOnlyScopeLevel st' = DataOnlyScopeLevel st \<and>
     TLS_PerSC st' = TLS_PerSC st \<and>
     BytesInQuarantine st' = BytesInQuarantine st \<and>
     LastQurantineSize st' = LastQurantineSize st \<and>
     TLS_LocalQuarantineSize st' = TLS_LocalQuarantineSize st \<and>
     NumScans st' = NumScans st \<and>
     ScanPos st' = ScanPos st \<and>
     pthread_self_val st' = pthread_self_val st"

text \<open>
  \<open>takes st g Pos st'\<close>: chunk \<open>Pos\<close> of the mapped super page \<open>g\<close> was \<open>AVAILABLE\<close> in
  \<open>st\<close>, and \<open>st'\<close> is \<open>st\<close> with the state byte of that chunk set to \<open>USED_MIXED\<close> or
  \<open>USED_DATA\<close> and the thread's current super pages updated. \<open>allocates st p st'\<close>: an
  allocation that starts in \<open>st\<close> first adds super pages and then takes one chunk,
  whose address, with some tag applied, is \<open>p\<close>.
\<close>

definition takes :: "Allocator \<Rightarrow> nat \<Rightarrow> nat \<Rightarrow> Allocator \<Rightarrow> bool" where
  "takes st g Pos st' \<longleftrightarrow>
     started st \<and> started st' \<and> is_mapped st g \<and> Pos < NumChunks (SCD_of st g) \<and>
     load_state st (State_of st g) Pos = AVAILABLE \<and>
     (\<exists>v. (v = USED_MIXED \<or> v = USED_DATA) \<and>
          store_state st (State_of st g) Pos v = st'\<lparr>TLS_PerSC := TLS_PerSC st\<rparr>)"

definition allocates :: "Allocator \<Rightarrow> nat \<Rightarrow> Allocator \<Rightarrow> bool" where
  "allocates st p st' \<longleftrightarrow>
     (\<exists>st1 g Pos Tag. grows st st1 \<and> takes st1 g Pos st' \<and>
        p = ApplyAddressTag (Config st) (SPA g + Pos * ChunkSize (SCD_of st1 g)) Tag)"

text \<open>What a result of the loop of \<open>AllocateSlower\<close> satisfies.\<close>

definition while_post :: "nat \<Rightarrow> nat \<Rightarrow> SizeClassDescr \<Rightarrow> Allocator \<Rightarrow> fault + (nat \<times> Allocator) \<Rightarrow> bool" where
  "while_post Size SC SCD st y \<longleftrightarrow>
     (\<forall>Res st'. y = Inr (Res, st') \<longrightarrow>
        NumSuperPages st 0 \<le> NumSuperPages st' 0 \<and>
        (started st \<and> SizeToSizeClass (SCDescr st) Size = Inr (SC, SCD) \<and>
         NumSuperPages st' 0 \<le> 2 ^ 20 \<longrightarrow> Res \<noteq> 0 \<and> allocates st Res st'))"

text \<open>A chunk is in use when its super page is mapped and its state byte is \<open>USED_MIXED\<close> or \<open>USED_DATA\<close>.\<close>

definition in_use :: "Allocator \<Rightarrow> nat \<Rightarrow> bool" where
  "in_use st a \<longleftrightarrow>
     mapped_addr st a \<and> (ChunkState st a = Inr USED_MIXED \<or> ChunkState st a = Inr USED_DATA)"

text \<open>
  The place of the state byte of the chunk that starts at \<open>Ptr\<close>; \<open>ChunkState\<close> is the
  byte at that place.
\<close>

definition ChunkLoc :: "Allocator \<Rightarrow> nat \<Rightarrow> fault + state_ptr" where
  "ChunkLoc st Ptr =
     (let SP = RoundDownTo Ptr kSuperPageSize
      in case GetSCD st SP of
           Inl f \<Rightarrow> Inl f
         | Inr SCD \<Rightarrow>
             (case ComputeStatePtr Ptr SCD of
                Inl f \<Rightarrow> Inl f
              | Inr Idx \<Rightarrow> Inr (shift_ptr (State SP (NumChunks SCD) (RangeNum SCD)) Idx)))"

text \<open>
  What freeing and scanning leave as they are (\<open>same_frame\<close>), and the three ways in
  which they change state bytes: one byte is set (\<open>sets_byte\<close>), bytes of chunks that
  are not in use stay as they are (\<open>frees_only\<close>), no chunk comes into use
  (\<open>no_new_use\<close>).
\<close>

definition same_frame :: "Allocator \<Rightarrow> Allocator \<Rightarrow> bool" where
  "same_frame st st' \<longleftrightarrow>
     Config st' = Config st \<and> SCDescr st' = SCDescr st \<and> InitAllOnce st' = InitAllOnce st \<and>
     SuperPageMetadata st' = SuperPageMetadata st \<and> NumSuperPages st' = NumSuperPages st \<and>
     TLS_PerSC st' = TLS_PerSC st \<and> TLS_Rand st' = TLS_Rand st \<and>
     DataOnlyScopeLevel st' = DataOnlyScopeLevel st"

definition sets_byte :: "Allocator \<Rightarrow> state_ptr \<Rightarrow> u8 \<Rightarrow> Allocator \<Rightarrow> bool" where
  "sets_byte st l v st' \<longleftrightarrow>
     same_frame st st' \<and> (\<forall>l'. load_state st' l' 0 = (if l' = l then v else load_state st l' 0))"

definition frees_only :: "Allocator \<Rightarrow> Allocator \<Rightarrow> bool" where
  "frees_only st st' \<longleftrightarrow>
     same_frame st st' \<and>
     (\<forall>l. load_state st l 0 \<noteq> USED_MIXED \<and> load_state st l 0 \<noteq> USED_DATA \<longrightarrow>
          load_state st' l 0 = load_state st l 0)"

definition no_new_use :: "Allocator \<Rightarrow> Allocator \<Rightarrow> bool" where
  "no_new_use st st' \<longleftrightarrow>
     same_frame st st' \<and>
     (\<forall>l. load_state st l 0 \<noteq> USED_MIXED \<and> load_state st l 0 \<noteq> USED_DATA \<longrightarrow>
          load_state st' l 0 \<noteq> USED_MIXED \<and> load_state st' l 0 \<noteq> USED_DATA)"

text \<open>A chunk is free when its super page is mapped and its state byte is neither \<open>USED_MIXED\<close> nor \<open>USED_DATA\<close>.\<close>

definition freed :: "Allocator \<Rightarrow> nat \<Rightarrow> bool" where
  "freed st b \<longleftrightarrow>
     mapped_addr st b \<and> (\<exists>w. ChunkState st b = Inr w \<and> w \<noteq> USED_MIXED \<and> w \<noteq> USED_DATA)"

text \<open>
  What every call keeps: the configuration, the table once it is built, the mapped
  super pages and their classes.
\<close>

definition keeps :: "Allocator \<Rightarrow> Allocator \<Rightarrow> bool" where
  "keeps st st' \<longleftrightarrow>
     Config st' = Config st \<and> (InitAllOnce st \<longrightarrow> InitAllOnce st' \<and> SCDescr st' = SCDescr st) \<and>
     (\<forall>g. is_mapped st g \<longrightarrow> is_mapped st' g \<and> SuperPageMetadata st' g = SuperPageMetadata st g)"

text \<open>
  A state in which the first range has used up its half of the region: all its
  \<open>2 ^ 20\<close> super pages are mapped and belong to the 32-byte class, every chunk is
  free, and the second range has one super page, of the 1024-byte class, which is the
  thread's current super page of that class. Tagging is off. This is the state of a
  process with one thread that has filled \<open>2 ^ 20\<close> super pages with 32-byte chunks,
  has allocated one chunk of 1024 bytes, and has freed them all.
\<close>

definition full_first_range :: Allocator where
  "full_first_range =
     (zero_Allocator plain_config 1)
       \<lparr>SCDescr := the InitAll, InitAllOnce := True,
        SuperPageMetadata := (\<lambda>g. if g < 1048576 then 1 else if g = 1048576 then 28 else 0),
        NumSuperPages := (\<lambda>R. if R = 0 then 1048576 else if R = 1 then 1 else 0),
        TLS_Rand := 1,
        TLS_PerSC := (\<lambda>SC. if SC = 28 then (SPA 1048576, 1)
                           else if SC = 1 then (SPA 1048575, 1) else (0, 0))\<rparr>"

section \<open>Facts about the utilities\<close>

lemma and_not_mask_word: "(w :: 'a::len word) AND NOT (mask k) = push_bit k (drop_bit k w)"
  by (rule bit_word_eqI) (auto simp: bit_simps)

lemma word_of_nat_pow2_minus1: "(2 ^ k :: u64) - 1 = mask k"
  by (simp add: mask_eq_exp_minus_1)

lemma RoundDownTo_pow2:
  assumes "x < 2 ^ 64"
  shows "RoundDownTo x (2 ^ k) = (x div 2 ^ k) * 2 ^ k"
proof -
  have "RoundDownTo x (2 ^ k) = unat (push_bit k (drop_bit k (word_of_nat x :: u64)))"
    by (simp add: RoundDownTo_def word_of_nat_pow2_minus1 and_not_mask_word)
  also have "\<dots> = take_bit 64 (push_bit k (drop_bit k (take_bit 64 x)))"
    by (simp add: unsigned_push_bit_eq unat_drop_bit_eq unsigned_of_nat)
  also have "take_bit 64 x = x"
    using assms by (simp add: take_bit_nat_eq_self_iff)
  also have "push_bit k (drop_bit k x) = (x div 2 ^ k) * 2 ^ k"
    by (simp add: push_bit_eq_mult drop_bit_eq_div)
  also have "take_bit 64 ((x div 2 ^ k) * 2 ^ k) = (x div 2 ^ k) * 2 ^ k"
  proof -
    have "(x div 2 ^ k) * 2 ^ k \<le> x" by simp
    then have "(x div 2 ^ k) * 2 ^ k < 2 ^ 64" using assms by linarith
    then show ?thesis by (simp add: take_bit_nat_eq_self_iff)
  qed
  finally show ?thesis .
qed

lemma RoundUpTo_pow2:
  assumes "x + 2 ^ k \<le> 2 ^ 64"
  shows "RoundUpTo x (2 ^ k) = ((x + 2 ^ k - 1) div 2 ^ k) * 2 ^ k"
proof -
  have lt: "x + 2 ^ k - 1 < 2 ^ 64"
    using assms by (simp add: less_eq_Suc_le [symmetric] Suc_le_eq)
  have "Suc 0 \<le> x + 2 ^ k"
    by (simp add: Suc_le_eq trans_less_add2)
  then have "(word_of_nat x :: u64) + word_of_nat (2 ^ k) - 1 = word_of_nat (x + 2 ^ k - 1)"
    by simp
  then have "RoundUpTo x (2 ^ k) = RoundDownTo (x + 2 ^ k - 1) (2 ^ k)"
    unfolding RoundUpTo_def RoundDownTo_def by simp
  then show ?thesis using RoundDownTo_pow2[OF lt] by simp
qed

section \<open>The reciprocal test\<close>

lemma IsCorrectDivToMul_loop_iff:
  "IsCorrectDivToMul_loop Div Mul Shift MaxLeft Lft \<longleftrightarrow>
   (\<forall>x. Lft \<le> x \<and> x \<le> MaxLeft \<longrightarrow>
        (x div Div) mod 2 ^ 32 = ((x * Mul) mod 2 ^ 64 div 2 ^ Shift) mod 2 ^ 32)"
proof (induction Div Mul Shift MaxLeft Lft rule: IsCorrectDivToMul_loop.induct)
  case (1 Div Mul Shift MaxLeft Lft)
  show ?case
  proof (cases "Lft \<le> MaxLeft")
    case False
    then show ?thesis by (subst IsCorrectDivToMul_loop.simps) simp
  next
    case True
    let ?P = "\<lambda>x. (x div Div) mod 2 ^ 32 = ((x * Mul) mod 2 ^ 64 div 2 ^ Shift) mod (2 ^ 32 :: nat)"
    show ?thesis
    proof (cases "?P Lft")
      case False
      with True show ?thesis
        by (subst IsCorrectDivToMul_loop.simps) (auto simp: Let_def)
    next
      case P: True
      have "IsCorrectDivToMul_loop Div Mul Shift MaxLeft Lft
            = IsCorrectDivToMul_loop Div Mul Shift MaxLeft (Lft + 1)"
        using True P by (subst IsCorrectDivToMul_loop.simps) (simp add: Let_def)
      also have "\<dots> = (\<forall>x. Lft + 1 \<le> x \<and> x \<le> MaxLeft \<longrightarrow> ?P x)"
        using "1.IH"[OF True refl refl] P by simp
      also have "\<dots> = (\<forall>x. Lft \<le> x \<and> x \<le> MaxLeft \<longrightarrow> ?P x)"
      proof (intro iffI allI impI)
        fix x assume a: "\<forall>x. Lft + 1 \<le> x \<and> x \<le> MaxLeft \<longrightarrow> ?P x" and b: "Lft \<le> x \<and> x \<le> MaxLeft"
        show "?P x"
        proof (cases "x = Lft")
          case True then show ?thesis using P by simp
        next
          case False then have "Lft + 1 \<le> x" using b by simp
          then show ?thesis using a b by blast
        qed
      next
        fix x assume a: "\<forall>x. Lft \<le> x \<and> x \<le> MaxLeft \<longrightarrow> ?P x" and b: "Lft + 1 \<le> x \<and> x \<le> MaxLeft"
        then have "Lft \<le> x \<and> x \<le> MaxLeft" by simp
        then show "?P x" using a by blast
      qed
      finally show ?thesis .
    qed
  qed
qed

lemma recip_exact:
  fixes d m e M x S :: nat
  assumes d: "0 < d" and md: "m * d = 2 ^ S + e"
    and q: "(M div d) * e < m"
    and last: "(M div d) * e + (M - (M div d) * d) * m < 2 ^ S"
    and x: "x \<le> M"
  shows "x * m div 2 ^ S = x div d"
proof -
  define q r where "q = x div d" and "r = x mod d"
  have x_eq: "x = q * d + r" by (simp add: q_def r_def)
  have r_lt: "r < d" using d by (simp add: r_def)
  have q_le: "q \<le> M div d" unfolding q_def using x by (rule div_le_mono)
  have "x * m = q * (m * d) + r * m"
    by (simp add: x_eq algebra_simps)
  also have "q * (m * d) = q * (2 ^ S + e)"
    by (simp only: md)
  finally have xm: "x * m = q * 2 ^ S + (q * e + r * m)"
    by (simp add: algebra_simps)
  have small: "q * e + r * m < 2 ^ S"
  proof (cases "q < M div d")
    case True
    have "(r + 1) * m \<le> d * m" using r_lt by (intro mult_le_mono1) simp
    then have A: "r * m + m \<le> 2 ^ S + e" using md by (simp add: algebra_simps)
    have "(q + 1) * e \<le> (M div d) * e" using True by (intro mult_le_mono1) simp
    then have B: "q * e + e < m" using q by (simp add: algebra_simps)
    from A B show ?thesis by linarith
  next
    case False
    with q_le have qe: "q = M div d" by simp
    have "r = x - q * d" using x_eq by simp
    then have "r \<le> M - q * d" using x by simp
    then have "r * m \<le> (M - q * d) * m" by (rule mult_le_mono1)
    then have "q * e + r * m \<le> q * e + (M - q * d) * m" by (rule add_left_mono)
    also have "\<dots> < 2 ^ S" using last unfolding qe .
    finally show ?thesis .
  qed
  show ?thesis
    unfolding xm q_def[symmetric] using small by simp
qed

lemma IsCorrectDivToMul_exact:
  assumes ok: "IsCorrectDivToMul d m S M" and m: "m < 2 ^ 32" and M: "M < 2 ^ 32"
    and S: "32 \<le> S" and x: "x \<le> M"
  shows "x * m div 2 ^ S = x div d"
proof (cases "x = 0")
  case True then show ?thesis by simp
next
  case False
  then have "1 \<le> x" by simp
  with ok x have eq: "(x div d) mod 2 ^ 32 = ((x * m) mod 2 ^ 64 div 2 ^ S) mod 2 ^ 32"
    unfolding IsCorrectDivToMul_def IsCorrectDivToMul_loop_iff by blast
  have xlt: "x < 2 ^ 32" using x M by simp
  have "x * m < 2 ^ 32 * 2 ^ 32"
    using xlt m by (intro mult_strict_mono) simp_all
  then have xm: "x * m < 2 ^ 64" by simp
  have "x div d < 2 ^ 32" using xlt by (rule le_less_trans[OF div_le_dividend])
  then have l: "(x div d) mod 2 ^ 32 = x div d" by simp
  have "(2::nat) ^ 32 \<le> 2 ^ S" using S by (rule power_increasing) simp
  then have "(2 ^ 32 * 2 ^ 32 :: nat) \<le> 2 ^ 32 * 2 ^ S" by (rule mult_le_mono2)
  then have "x * m < 2 ^ 32 * 2 ^ S" using \<open>x * m < 2 ^ 32 * 2 ^ 32\<close> by (rule less_le_trans[rotated])
  then have "x * m div 2 ^ S < 2 ^ 32"
    by (rule less_mult_imp_div_less)
  then show ?thesis using eq l xm by simp
qed

lemma IsCorrectDivToMul_suff:
  assumes d: "0 < d" and ge: "2 ^ S \<le> m * d" and m: "m < 2 ^ 32" and M: "M < 2 ^ 32"
    and S: "32 \<le> S"
    and q: "(M div d) * (m * d - 2 ^ S) < m"
    and last: "(M div d) * (m * d - 2 ^ S) + (M - (M div d) * d) * m < 2 ^ S"
  shows "IsCorrectDivToMul d m S M"
  unfolding IsCorrectDivToMul_def IsCorrectDivToMul_loop_iff
proof (intro allI impI)
  fix x assume "1 \<le> x \<and> x \<le> M"
  then have x: "x \<le> M" by simp
  have md: "m * d = 2 ^ S + (m * d - 2 ^ S)" using ge by simp
  have ex: "x * m div 2 ^ S = x div d"
    by (rule recip_exact[OF d md q last x])
  have xlt: "x < 2 ^ 32" using x M by simp
  have "x * m < 2 ^ 32 * 2 ^ 32"
    using xlt m by (intro mult_strict_mono) simp_all
  then have xm: "x * m < 2 ^ 64" by simp
  have "x div d < 2 ^ 32" using xlt by (rule le_less_trans[OF div_le_dividend])
  then have l: "(x div d) mod 2 ^ 32 = x div d" by simp
  show "x div d mod 2 ^ 32 = x * m mod 2 ^ 64 div 2 ^ S mod 2 ^ 32"
    using ex l xm by simp
qed

lemma RoundUpTo_32: "n + 32 \<le> 2 ^ 64 \<Longrightarrow> RoundUpTo n 32 = ((n + 31) div 32) * 32"
  using RoundUpTo_pow2[of n 5] by simp

lemma SizeOfInlineMeta_mono:
  assumes "i \<le> j" "j + 32 \<le> 2 ^ 64"
  shows "SizeOfInlineMeta i R \<le> SizeOfInlineMeta j R"
proof -
  have "(i + 31) div 32 \<le> (j + 31) div 32" using assms by (intro div_le_mono) simp
  then show ?thesis
    using assms by (simp add: SizeOfInlineMeta_def kStateArrayAlignment_def RoundUpTo_32)
qed

lemma ComputeNumChunks_loop_greatest:
  assumes "0 < n" "n \<le> k" "k + 32 \<le> 2 ^ 64"
    and fit: "SizeOfInlineMeta n R + n * CS \<le> kSuperPageSize"
    and nofit: "kSuperPageSize < SizeOfInlineMeta (Suc n) R + Suc n * CS"
  shows "ComputeNumChunks_loop CS R k = Some n"
  using assms(2,3)
proof (induction k)
  case 0
  with assms(1) show ?case by simp
next
  case (Suc k)
  show ?case
  proof (cases "n = Suc k")
    case True
    then show ?thesis using fit by simp
  next
    case False
    with Suc.prems have le: "n \<le> k" by simp
    then have "Suc n \<le> Suc k" by simp
    then have "SizeOfInlineMeta (Suc n) R \<le> SizeOfInlineMeta (Suc k) R"
      using Suc.prems by (intro SizeOfInlineMeta_mono) simp_all
    moreover have "Suc n * CS \<le> Suc k * CS" using le by (intro mult_le_mono1) simp
    ultimately have "kSuperPageSize < SizeOfInlineMeta (Suc k) R + Suc k * CS"
      using nofit by linarith
    then show ?thesis using Suc.IH le Suc.prems by simp
  qed
qed

section \<open>The size-class table\<close>

lemma ComputeMulForDiv_lt: "ComputeMulForDiv d S < 2 ^ 32"
  by (simp add: ComputeMulForDiv_def Let_def)

lemma InitSizeClass_table:
  assumes cs: "0 < cs" "cs mod 16 = 0" "cs div 16 < 2 ^ 16"
    and m: "m = ComputeMulForDiv cs 35"
    and ge: "2 ^ 35 \<le> m * cs"
    and q: "(2 ^ 19 div cs) * (m * cs - 2 ^ 35) < m"
    and last: "(2 ^ 19 div cs) * (m * cs - 2 ^ 35) + (2 ^ 19 - (2 ^ 19 div cs) * cs) * m < 2 ^ 35"
    and R: "R = (if cs mod 1024 = 0 then 1 else 0)"
    and c16: "c16 = cs div 16"
    and n: "0 < n" "n \<le> 2 ^ 19 div cs" "n < 2 ^ 15"
    and fit: "SizeOfInlineMeta n R + n * cs \<le> 2 ^ 19"
    and nofit: "2 ^ 19 < SizeOfInlineMeta (Suc n) R + Suc n * cs"
  shows "InitSizeClass cs =
         Some \<lparr>RangeNum = R, NumChunks = n, ChunkSizeDiv16 = c16, ChunkSizeMulDiv = m\<rparr>"
proof -
  have cs32: "cs < 2 ^ 32" using cs(3) by simp
  have mlt: "m < 2 ^ 32" unfolding m by (rule ComputeMulForDiv_lt)
  have ok: "IsCorrectDivToMul cs m 35 (2 ^ 19)"
    by (rule IsCorrectDivToMul_suff[OF cs(1) ge mlt _ _ q last]) simp_all
  have fx: "FixUpChunkSize cs = Some cs"
    using cs(1) cs32 ok m
    by (subst FixUpChunkSize.simps) (simp add: kDivMulShift_def kSuperPageSize_def)
  have "2 ^ 19 div cs + 32 \<le> (2 ^ 64 :: nat)"
  proof -
    have "2 ^ 19 div cs + 32 \<le> (2 ^ 19 + 32 :: nat)"
      by (rule add_le_mono1[OF div_le_dividend])
    also have "\<dots> \<le> 2 ^ 64" by simp
    finally show ?thesis .
  qed
  then have nc: "ComputeNumChunks cs R = Some n"
    unfolding ComputeNumChunks_def kSuperPageSize_def
    using ComputeNumChunks_loop_greatest[of n "2 ^ 19 div cs" R cs] n fit nofit
    by (simp add: kSuperPageSize_def)
  show ?thesis
    using fx nc cs cs32 mlt ok n R m c16
    by (simp add: InitSizeClass_def kSizeAlignmentForSecondRange_def kDivMulShift_def
        kSuperPageSize_def Let_def)
qed

lemma InitSizeClass_entries:
  "InitSizeClass 16 = Some \<lparr>RangeNum = 0, NumChunks = 30840, ChunkSizeDiv16 = 1, ChunkSizeMulDiv = 2147483648\<rparr>"
  "InitSizeClass 32 = Some \<lparr>RangeNum = 0, NumChunks = 15887, ChunkSizeDiv16 = 2, ChunkSizeMulDiv = 1073741824\<rparr>"
  "InitSizeClass 48 = Some \<lparr>RangeNum = 0, NumChunks = 10699, ChunkSizeDiv16 = 3, ChunkSizeMulDiv = 715827883\<rparr>"
  "InitSizeClass 64 = Some \<lparr>RangeNum = 0, NumChunks = 8065, ChunkSizeDiv16 = 4, ChunkSizeMulDiv = 536870912\<rparr>"
  "InitSizeClass 80 = Some \<lparr>RangeNum = 0, NumChunks = 6472, ChunkSizeDiv16 = 5, ChunkSizeMulDiv = 429496730\<rparr>"
  "InitSizeClass 96 = Some \<lparr>RangeNum = 0, NumChunks = 5405, ChunkSizeDiv16 = 6, ChunkSizeMulDiv = 357913942\<rparr>"
  "InitSizeClass 112 = Some \<lparr>RangeNum = 0, NumChunks = 4639, ChunkSizeDiv16 = 7, ChunkSizeMulDiv = 306783379\<rparr>"
  "InitSizeClass 128 = Some \<lparr>RangeNum = 0, NumChunks = 4064, ChunkSizeDiv16 = 8, ChunkSizeMulDiv = 268435456\<rparr>"
  "InitSizeClass 144 = Some \<lparr>RangeNum = 0, NumChunks = 3615, ChunkSizeDiv16 = 9, ChunkSizeMulDiv = 238609295\<rparr>"
  "InitSizeClass 160 = Some \<lparr>RangeNum = 0, NumChunks = 3256, ChunkSizeDiv16 = 10, ChunkSizeMulDiv = 214748365\<rparr>"
  "InitSizeClass 176 = Some \<lparr>RangeNum = 0, NumChunks = 2962, ChunkSizeDiv16 = 11, ChunkSizeMulDiv = 195225787\<rparr>"
  "InitSizeClass 192 = Some \<lparr>RangeNum = 0, NumChunks = 2716, ChunkSizeDiv16 = 12, ChunkSizeMulDiv = 178956971\<rparr>"
  "InitSizeClass 208 = Some \<lparr>RangeNum = 0, NumChunks = 2508, ChunkSizeDiv16 = 13, ChunkSizeMulDiv = 165191050\<rparr>"
  "InitSizeClass 224 = Some \<lparr>RangeNum = 0, NumChunks = 2330, ChunkSizeDiv16 = 14, ChunkSizeMulDiv = 153391690\<rparr>"
  "InitSizeClass 240 = Some \<lparr>RangeNum = 0, NumChunks = 2175, ChunkSizeDiv16 = 15, ChunkSizeMulDiv = 143165577\<rparr>"
  "InitSizeClass 256 = Some \<lparr>RangeNum = 0, NumChunks = 2040, ChunkSizeDiv16 = 16, ChunkSizeMulDiv = 134217728\<rparr>"
  "InitSizeClass 272 = Some \<lparr>RangeNum = 0, NumChunks = 1920, ChunkSizeDiv16 = 17, ChunkSizeMulDiv = 126322568\<rparr>"
  "InitSizeClass 288 = Some \<lparr>RangeNum = 0, NumChunks = 1814, ChunkSizeDiv16 = 18, ChunkSizeMulDiv = 119304648\<rparr>"
  "InitSizeClass 336 = Some \<lparr>RangeNum = 0, NumChunks = 1555, ChunkSizeDiv16 = 21, ChunkSizeMulDiv = 102261127\<rparr>"
  "InitSizeClass 368 = Some \<lparr>RangeNum = 0, NumChunks = 1420, ChunkSizeDiv16 = 23, ChunkSizeMulDiv = 93368855\<rparr>"
  "InitSizeClass 448 = Some \<lparr>RangeNum = 0, NumChunks = 1167, ChunkSizeDiv16 = 28, ChunkSizeMulDiv = 76695845\<rparr>"
  "InitSizeClass 480 = Some \<lparr>RangeNum = 0, NumChunks = 1089, ChunkSizeDiv16 = 30, ChunkSizeMulDiv = 71582789\<rparr>"
  "InitSizeClass 512 = Some \<lparr>RangeNum = 0, NumChunks = 1022, ChunkSizeDiv16 = 32, ChunkSizeMulDiv = 67108864\<rparr>"
  "InitSizeClass 576 = Some \<lparr>RangeNum = 0, NumChunks = 908, ChunkSizeDiv16 = 36, ChunkSizeMulDiv = 59652324\<rparr>"
  "InitSizeClass 640 = Some \<lparr>RangeNum = 0, NumChunks = 817, ChunkSizeDiv16 = 40, ChunkSizeMulDiv = 53687092\<rparr>"
  "InitSizeClass 704 = Some \<lparr>RangeNum = 0, NumChunks = 743, ChunkSizeDiv16 = 44, ChunkSizeMulDiv = 48806447\<rparr>"
  "InitSizeClass 768 = Some \<lparr>RangeNum = 0, NumChunks = 681, ChunkSizeDiv16 = 48, ChunkSizeMulDiv = 44739243\<rparr>"
  "InitSizeClass 896 = Some \<lparr>RangeNum = 0, NumChunks = 584, ChunkSizeDiv16 = 56, ChunkSizeMulDiv = 38347923\<rparr>"
  "InitSizeClass 1024 = Some \<lparr>RangeNum = 1, NumChunks = 512, ChunkSizeDiv16 = 64, ChunkSizeMulDiv = 33554432\<rparr>"
  "InitSizeClass 1152 = Some \<lparr>RangeNum = 0, NumChunks = 454, ChunkSizeDiv16 = 72, ChunkSizeMulDiv = 29826162\<rparr>"
  "InitSizeClass 1280 = Some \<lparr>RangeNum = 0, NumChunks = 409, ChunkSizeDiv16 = 80, ChunkSizeMulDiv = 26843546\<rparr>"
  "InitSizeClass 1408 = Some \<lparr>RangeNum = 0, NumChunks = 372, ChunkSizeDiv16 = 88, ChunkSizeMulDiv = 24403224\<rparr>"
  "InitSizeClass 1536 = Some \<lparr>RangeNum = 0, NumChunks = 341, ChunkSizeDiv16 = 96, ChunkSizeMulDiv = 22369622\<rparr>"
  "InitSizeClass 1792 = Some \<lparr>RangeNum = 0, NumChunks = 292, ChunkSizeDiv16 = 112, ChunkSizeMulDiv = 19173962\<rparr>"
  "InitSizeClass 2048 = Some \<lparr>RangeNum = 1, NumChunks = 256, ChunkSizeDiv16 = 128, ChunkSizeMulDiv = 16777216\<rparr>"
  "InitSizeClass 2304 = Some \<lparr>RangeNum = 0, NumChunks = 227, ChunkSizeDiv16 = 144, ChunkSizeMulDiv = 14913081\<rparr>"
  "InitSizeClass 2688 = Some \<lparr>RangeNum = 0, NumChunks = 194, ChunkSizeDiv16 = 168, ChunkSizeMulDiv = 12782641\<rparr>"
  "InitSizeClass 2816 = Some \<lparr>RangeNum = 0, NumChunks = 186, ChunkSizeDiv16 = 176, ChunkSizeMulDiv = 12201612\<rparr>"
  "InitSizeClass 3200 = Some \<lparr>RangeNum = 0, NumChunks = 163, ChunkSizeDiv16 = 200, ChunkSizeMulDiv = 10737419\<rparr>"
  "InitSizeClass 3456 = Some \<lparr>RangeNum = 0, NumChunks = 151, ChunkSizeDiv16 = 216, ChunkSizeMulDiv = 9942054\<rparr>"
  "InitSizeClass 3584 = Some \<lparr>RangeNum = 0, NumChunks = 146, ChunkSizeDiv16 = 224, ChunkSizeMulDiv = 9586981\<rparr>"
  "InitSizeClass 4096 = Some \<lparr>RangeNum = 1, NumChunks = 128, ChunkSizeDiv16 = 256, ChunkSizeMulDiv = 8388608\<rparr>"
  "InitSizeClass 4736 = Some \<lparr>RangeNum = 0, NumChunks = 110, ChunkSizeDiv16 = 296, ChunkSizeMulDiv = 7255013\<rparr>"
  "InitSizeClass 5376 = Some \<lparr>RangeNum = 0, NumChunks = 97, ChunkSizeDiv16 = 336, ChunkSizeMulDiv = 6391321\<rparr>"
  "InitSizeClass 6144 = Some \<lparr>RangeNum = 1, NumChunks = 85, ChunkSizeDiv16 = 384, ChunkSizeMulDiv = 5592406\<rparr>"
  "InitSizeClass 6528 = Some \<lparr>RangeNum = 0, NumChunks = 80, ChunkSizeDiv16 = 408, ChunkSizeMulDiv = 5263441\<rparr>"
  "InitSizeClass 7168 = Some \<lparr>RangeNum = 1, NumChunks = 73, ChunkSizeDiv16 = 448, ChunkSizeMulDiv = 4793491\<rparr>"
  "InitSizeClass 8192 = Some \<lparr>RangeNum = 1, NumChunks = 64, ChunkSizeDiv16 = 512, ChunkSizeMulDiv = 4194304\<rparr>"
  "InitSizeClass 9216 = Some \<lparr>RangeNum = 1, NumChunks = 56, ChunkSizeDiv16 = 576, ChunkSizeMulDiv = 3728271\<rparr>"
  "InitSizeClass 10240 = Some \<lparr>RangeNum = 1, NumChunks = 51, ChunkSizeDiv16 = 640, ChunkSizeMulDiv = 3355444\<rparr>"
  "InitSizeClass 12288 = Some \<lparr>RangeNum = 1, NumChunks = 42, ChunkSizeDiv16 = 768, ChunkSizeMulDiv = 2796203\<rparr>"
  "InitSizeClass 14336 = Some \<lparr>RangeNum = 1, NumChunks = 36, ChunkSizeDiv16 = 896, ChunkSizeMulDiv = 2396746\<rparr>"
  "InitSizeClass 16384 = Some \<lparr>RangeNum = 1, NumChunks = 32, ChunkSizeDiv16 = 1024, ChunkSizeMulDiv = 2097152\<rparr>"
  "InitSizeClass 20480 = Some \<lparr>RangeNum = 1, NumChunks = 25, ChunkSizeDiv16 = 1280, ChunkSizeMulDiv = 1677722\<rparr>"
  "InitSizeClass 24576 = Some \<lparr>RangeNum = 1, NumChunks = 21, ChunkSizeDiv16 = 1536, ChunkSizeMulDiv = 1398102\<rparr>"
  "InitSizeClass 28672 = Some \<lparr>RangeNum = 1, NumChunks = 18, ChunkSizeDiv16 = 1792, ChunkSizeMulDiv = 1198373\<rparr>"
  "InitSizeClass 32768 = Some \<lparr>RangeNum = 1, NumChunks = 16, ChunkSizeDiv16 = 2048, ChunkSizeMulDiv = 1048576\<rparr>"
  "InitSizeClass 40960 = Some \<lparr>RangeNum = 1, NumChunks = 12, ChunkSizeDiv16 = 2560, ChunkSizeMulDiv = 838861\<rparr>"
  "InitSizeClass 49152 = Some \<lparr>RangeNum = 1, NumChunks = 10, ChunkSizeDiv16 = 3072, ChunkSizeMulDiv = 699051\<rparr>"
  "InitSizeClass 57344 = Some \<lparr>RangeNum = 1, NumChunks = 9, ChunkSizeDiv16 = 3584, ChunkSizeMulDiv = 599187\<rparr>"
  "InitSizeClass 65536 = Some \<lparr>RangeNum = 1, NumChunks = 8, ChunkSizeDiv16 = 4096, ChunkSizeMulDiv = 524288\<rparr>"
  "InitSizeClass 73728 = Some \<lparr>RangeNum = 1, NumChunks = 7, ChunkSizeDiv16 = 4608, ChunkSizeMulDiv = 466034\<rparr>"
  "InitSizeClass 81920 = Some \<lparr>RangeNum = 1, NumChunks = 6, ChunkSizeDiv16 = 5120, ChunkSizeMulDiv = 419431\<rparr>"
  "InitSizeClass 98304 = Some \<lparr>RangeNum = 1, NumChunks = 5, ChunkSizeDiv16 = 6144, ChunkSizeMulDiv = 349526\<rparr>"
  "InitSizeClass 131072 = Some \<lparr>RangeNum = 1, NumChunks = 4, ChunkSizeDiv16 = 8192, ChunkSizeMulDiv = 262144\<rparr>"
  "InitSizeClass 172032 = Some \<lparr>RangeNum = 1, NumChunks = 3, ChunkSizeDiv16 = 10752, ChunkSizeMulDiv = 199729\<rparr>"
  "InitSizeClass 262144 = Some \<lparr>RangeNum = 1, NumChunks = 2, ChunkSizeDiv16 = 16384, ChunkSizeMulDiv = 131072\<rparr>"
  by (-, (rule InitSizeClass_table;
      simp add: ComputeMulForDiv_def SizeOfInlineMeta_def kStateArrayAlignment_def RoundUpTo_def)+)

lemma InitAll_eq:
  "InitAll = Some
   [\<lparr>RangeNum = 0, NumChunks = 30840, ChunkSizeDiv16 = 1, ChunkSizeMulDiv = 2147483648\<rparr>,
    \<lparr>RangeNum = 0, NumChunks = 15887, ChunkSizeDiv16 = 2, ChunkSizeMulDiv = 1073741824\<rparr>,
    \<lparr>RangeNum = 0, NumChunks = 10699, ChunkSizeDiv16 = 3, ChunkSizeMulDiv = 715827883\<rparr>,
    \<lparr>RangeNum = 0, NumChunks = 8065, ChunkSizeDiv16 = 4, ChunkSizeMulDiv = 536870912\<rparr>,
    \<lparr>RangeNum = 0, NumChunks = 6472, ChunkSizeDiv16 = 5, ChunkSizeMulDiv = 429496730\<rparr>,
    \<lparr>RangeNum = 0, NumChunks = 5405, ChunkSizeDiv16 = 6, ChunkSizeMulDiv = 357913942\<rparr>,
    \<lparr>RangeNum = 0, NumChunks = 4639, ChunkSizeDiv16 = 7, ChunkSizeMulDiv = 306783379\<rparr>,
    \<lparr>RangeNum = 0, NumChunks = 4064, ChunkSizeDiv16 = 8, ChunkSizeMulDiv = 268435456\<rparr>,
    \<lparr>RangeNum = 0, NumChunks = 3615, ChunkSizeDiv16 = 9, ChunkSizeMulDiv = 238609295\<rparr>,
    \<lparr>RangeNum = 0, NumChunks = 3256, ChunkSizeDiv16 = 10, ChunkSizeMulDiv = 214748365\<rparr>,
    \<lparr>RangeNum = 0, NumChunks = 2962, ChunkSizeDiv16 = 11, ChunkSizeMulDiv = 195225787\<rparr>,
    \<lparr>RangeNum = 0, NumChunks = 2716, ChunkSizeDiv16 = 12, ChunkSizeMulDiv = 178956971\<rparr>,
    \<lparr>RangeNum = 0, NumChunks = 2508, ChunkSizeDiv16 = 13, ChunkSizeMulDiv = 165191050\<rparr>,
    \<lparr>RangeNum = 0, NumChunks = 2330, ChunkSizeDiv16 = 14, ChunkSizeMulDiv = 153391690\<rparr>,
    \<lparr>RangeNum = 0, NumChunks = 2175, ChunkSizeDiv16 = 15, ChunkSizeMulDiv = 143165577\<rparr>,
    \<lparr>RangeNum = 0, NumChunks = 2040, ChunkSizeDiv16 = 16, ChunkSizeMulDiv = 134217728\<rparr>,
    \<lparr>RangeNum = 0, NumChunks = 1920, ChunkSizeDiv16 = 17, ChunkSizeMulDiv = 126322568\<rparr>,
    \<lparr>RangeNum = 0, NumChunks = 1814, ChunkSizeDiv16 = 18, ChunkSizeMulDiv = 119304648\<rparr>,
    \<lparr>RangeNum = 0, NumChunks = 1555, ChunkSizeDiv16 = 21, ChunkSizeMulDiv = 102261127\<rparr>,
    \<lparr>RangeNum = 0, NumChunks = 1420, ChunkSizeDiv16 = 23, ChunkSizeMulDiv = 93368855\<rparr>,
    \<lparr>RangeNum = 0, NumChunks = 1167, ChunkSizeDiv16 = 28, ChunkSizeMulDiv = 76695845\<rparr>,
    \<lparr>RangeNum = 0, NumChunks = 1089, ChunkSizeDiv16 = 30, ChunkSizeMulDiv = 71582789\<rparr>,
    \<lparr>RangeNum = 0, NumChunks = 1022, ChunkSizeDiv16 = 32, ChunkSizeMulDiv = 67108864\<rparr>,
    \<lparr>RangeNum = 0, NumChunks = 908, ChunkSizeDiv16 = 36, ChunkSizeMulDiv = 59652324\<rparr>,
    \<lparr>RangeNum = 0, NumChunks = 817, ChunkSizeDiv16 = 40, ChunkSizeMulDiv = 53687092\<rparr>,
    \<lparr>RangeNum = 0, NumChunks = 743, ChunkSizeDiv16 = 44, ChunkSizeMulDiv = 48806447\<rparr>,
    \<lparr>RangeNum = 0, NumChunks = 681, ChunkSizeDiv16 = 48, ChunkSizeMulDiv = 44739243\<rparr>,
    \<lparr>RangeNum = 0, NumChunks = 584, ChunkSizeDiv16 = 56, ChunkSizeMulDiv = 38347923\<rparr>,
    \<lparr>RangeNum = 1, NumChunks = 512, ChunkSizeDiv16 = 64, ChunkSizeMulDiv = 33554432\<rparr>,
    \<lparr>RangeNum = 0, NumChunks = 454, ChunkSizeDiv16 = 72, ChunkSizeMulDiv = 29826162\<rparr>,
    \<lparr>RangeNum = 0, NumChunks = 409, ChunkSizeDiv16 = 80, ChunkSizeMulDiv = 26843546\<rparr>,
    \<lparr>RangeNum = 0, NumChunks = 372, ChunkSizeDiv16 = 88, ChunkSizeMulDiv = 24403224\<rparr>,
    \<lparr>RangeNum = 0, NumChunks = 341, ChunkSizeDiv16 = 96, ChunkSizeMulDiv = 22369622\<rparr>,
    \<lparr>RangeNum = 0, NumChunks = 292, ChunkSizeDiv16 = 112, ChunkSizeMulDiv = 19173962\<rparr>,
    \<lparr>RangeNum = 1, NumChunks = 256, ChunkSizeDiv16 = 128, ChunkSizeMulDiv = 16777216\<rparr>,
    \<lparr>RangeNum = 0, NumChunks = 227, ChunkSizeDiv16 = 144, ChunkSizeMulDiv = 14913081\<rparr>,
    \<lparr>RangeNum = 0, NumChunks = 194, ChunkSizeDiv16 = 168, ChunkSizeMulDiv = 12782641\<rparr>,
    \<lparr>RangeNum = 0, NumChunks = 186, ChunkSizeDiv16 = 176, ChunkSizeMulDiv = 12201612\<rparr>,
    \<lparr>RangeNum = 0, NumChunks = 163, ChunkSizeDiv16 = 200, ChunkSizeMulDiv = 10737419\<rparr>,
    \<lparr>RangeNum = 0, NumChunks = 151, ChunkSizeDiv16 = 216, ChunkSizeMulDiv = 9942054\<rparr>,
    \<lparr>RangeNum = 0, NumChunks = 146, ChunkSizeDiv16 = 224, ChunkSizeMulDiv = 9586981\<rparr>,
    \<lparr>RangeNum = 1, NumChunks = 128, ChunkSizeDiv16 = 256, ChunkSizeMulDiv = 8388608\<rparr>,
    \<lparr>RangeNum = 0, NumChunks = 110, ChunkSizeDiv16 = 296, ChunkSizeMulDiv = 7255013\<rparr>,
    \<lparr>RangeNum = 0, NumChunks = 97, ChunkSizeDiv16 = 336, ChunkSizeMulDiv = 6391321\<rparr>,
    \<lparr>RangeNum = 1, NumChunks = 85, ChunkSizeDiv16 = 384, ChunkSizeMulDiv = 5592406\<rparr>,
    \<lparr>RangeNum = 0, NumChunks = 80, ChunkSizeDiv16 = 408, ChunkSizeMulDiv = 5263441\<rparr>,
    \<lparr>RangeNum = 1, NumChunks = 73, ChunkSizeDiv16 = 448, ChunkSizeMulDiv = 4793491\<rparr>,
    \<lparr>RangeNum = 1, NumChunks = 64, ChunkSizeDiv16 = 512, ChunkSizeMulDiv = 4194304\<rparr>,
    \<lparr>RangeNum = 1, NumChunks = 56, ChunkSizeDiv16 = 576, ChunkSizeMulDiv = 3728271\<rparr>,
    \<lparr>RangeNum = 1, NumChunks = 51, ChunkSizeDiv16 = 640, ChunkSizeMulDiv = 3355444\<rparr>,
    \<lparr>RangeNum = 1, NumChunks = 42, ChunkSizeDiv16 = 768, ChunkSizeMulDiv = 2796203\<rparr>,
    \<lparr>RangeNum = 1, NumChunks = 36, ChunkSizeDiv16 = 896, ChunkSizeMulDiv = 2396746\<rparr>,
    \<lparr>RangeNum = 1, NumChunks = 32, ChunkSizeDiv16 = 1024, ChunkSizeMulDiv = 2097152\<rparr>,
    \<lparr>RangeNum = 1, NumChunks = 25, ChunkSizeDiv16 = 1280, ChunkSizeMulDiv = 1677722\<rparr>,
    \<lparr>RangeNum = 1, NumChunks = 21, ChunkSizeDiv16 = 1536, ChunkSizeMulDiv = 1398102\<rparr>,
    \<lparr>RangeNum = 1, NumChunks = 18, ChunkSizeDiv16 = 1792, ChunkSizeMulDiv = 1198373\<rparr>,
    \<lparr>RangeNum = 1, NumChunks = 16, ChunkSizeDiv16 = 2048, ChunkSizeMulDiv = 1048576\<rparr>,
    \<lparr>RangeNum = 1, NumChunks = 12, ChunkSizeDiv16 = 2560, ChunkSizeMulDiv = 838861\<rparr>,
    \<lparr>RangeNum = 1, NumChunks = 10, ChunkSizeDiv16 = 3072, ChunkSizeMulDiv = 699051\<rparr>,
    \<lparr>RangeNum = 1, NumChunks = 9, ChunkSizeDiv16 = 3584, ChunkSizeMulDiv = 599187\<rparr>,
    \<lparr>RangeNum = 1, NumChunks = 8, ChunkSizeDiv16 = 4096, ChunkSizeMulDiv = 524288\<rparr>,
    \<lparr>RangeNum = 1, NumChunks = 7, ChunkSizeDiv16 = 4608, ChunkSizeMulDiv = 466034\<rparr>,
    \<lparr>RangeNum = 1, NumChunks = 6, ChunkSizeDiv16 = 5120, ChunkSizeMulDiv = 419431\<rparr>,
    \<lparr>RangeNum = 1, NumChunks = 5, ChunkSizeDiv16 = 6144, ChunkSizeMulDiv = 349526\<rparr>,
    \<lparr>RangeNum = 1, NumChunks = 4, ChunkSizeDiv16 = 8192, ChunkSizeMulDiv = 262144\<rparr>,
    \<lparr>RangeNum = 1, NumChunks = 3, ChunkSizeDiv16 = 10752, ChunkSizeMulDiv = 199729\<rparr>,
    \<lparr>RangeNum = 1, NumChunks = 2, ChunkSizeDiv16 = 16384, ChunkSizeMulDiv = 131072\<rparr>]"
  unfolding InitAll_def SCArray_def by (simp add: InitSizeClass_entries)

lemma InitSizeClass_SomeD:
  assumes "InitSizeClass sc = Some d"
  shows "\<exists>CS. CS mod 16 = 0 \<and> CS div 16 < 2 ^ 16 \<and> ChunkSize d = CS
          \<and> RangeNum d = (if CS mod 1024 = 0 then 1 else 0)
          \<and> ChunkSizeMulDiv d < 2 ^ 32
          \<and> IsCorrectDivToMul CS (ChunkSizeMulDiv d) 35 (2 ^ 19)
          \<and> (\<exists>N. ComputeNumChunks CS (RangeNum d) = Some N \<and> NumChunks d = N mod 2 ^ 15)"
proof -
  from assms obtain CS where fx: "FixUpChunkSize sc = Some CS"
    by (auto simp: InitSizeClass_def split: option.splits)
  from assms fx have a: "CS mod 16 = 0" "CS div 16 < 2 ^ 16"
    by (auto simp: InitSizeClass_def split: option.splits if_splits)
  then have cs32: "CS mod 2 ^ 32 = CS" by simp
  define R :: nat where "R = (if CS mod 1024 = 0 then 1 else 0)"
  have R2: "R mod 2 = R" by (simp add: R_def)
  from assms fx a obtain N where nc: "ComputeNumChunks CS R = Some N"
    by (auto simp: InitSizeClass_def R_def kSizeAlignmentForSecondRange_def Let_def
        split: option.splits if_splits)
  from assms fx a nc R2 have
    d: "d = \<lparr>RangeNum = R, NumChunks = N mod 2 ^ 15, ChunkSizeDiv16 = (CS div 16) mod 2 ^ 16,
            ChunkSizeMulDiv = ComputeMulForDiv CS 35 mod 2 ^ 32\<rparr>"
    and ok: "IsCorrectDivToMul CS (ComputeMulForDiv CS 35 mod 2 ^ 32) 35 (2 ^ 19)"
    by (auto simp: InitSizeClass_def R_def[symmetric] kSizeAlignmentForSecondRange_def Let_def cs32
        kDivMulShift_def kSuperPageSize_def split: option.splits if_splits)
  have "CS div 16 * 16 = CS" using a(1) by (simp add: mod_eq_0_iff_dvd)
  then have "ChunkSize d = CS" using a by (simp add: d ChunkSize_def)
  then show ?thesis
    using a d ok nc by (auto simp: R_def)
qed

lemma InitAll_loop_set:
  "InitAll_loop scs = Some ds \<Longrightarrow> d \<in> set ds \<Longrightarrow> \<exists>sc \<in> set scs. InitSizeClass sc = Some d"
  by (induction scs arbitrary: ds) (auto split: option.splits)

lemma InitAll_loop_length:
  "InitAll_loop scs = Some ds \<Longrightarrow> length ds = length scs"
  by (induction scs arbitrary: ds) (auto split: option.splits)

lemma DivBySizeViaMul_exact:
  assumes "x < 2 ^ 32" "m < 2 ^ 32"
  shows "DivBySizeViaMul x m = x * m div 2 ^ 35"
proof -
  have "x * m < 2 ^ 32 * 2 ^ 32"
    using assms by (intro mult_strict_mono) simp_all
  then have xm: "x * m < 2 ^ 64" by simp
  have "x * m < 2 ^ 32 * 2 ^ 35" using xm by simp
  then have "x * m div 2 ^ 35 < 2 ^ 32" by (rule less_mult_imp_div_less)
  then show ?thesis using assms xm by (simp add: DivBySizeViaMul_def kDivMulShift_def)
qed

lemma InitAll_recip:
  assumes "InitAll = Some SCD" "d \<in> set SCD" "offset \<le> kSuperPageSize"
  shows "offset * ChunkSizeMulDiv d div 2 ^ 35 = offset div ChunkSize d"
    and "DivBySizeViaMul offset (ChunkSizeMulDiv d) = offset div ChunkSize d"
proof -
  from assms(1,2) obtain sc where "InitSizeClass sc = Some d"
    unfolding InitAll_def by (blast dest: InitAll_loop_set)
  from InitSizeClass_SomeD[OF this]
  have m: "ChunkSizeMulDiv d < 2 ^ 32"
    and ok: "IsCorrectDivToMul (ChunkSize d) (ChunkSizeMulDiv d) 35 (2 ^ 19)"
    by auto
  have x: "offset \<le> 2 ^ 19" using assms(3) by (simp add: kSuperPageSize_def)
  show e: "offset * ChunkSizeMulDiv d div 2 ^ 35 = offset div ChunkSize d"
    by (rule IsCorrectDivToMul_exact[OF ok m _ _ x]) simp_all
  have "offset < 2 ^ 32" using x by simp
  then show "DivBySizeViaMul offset (ChunkSizeMulDiv d) = offset div ChunkSize d"
    using m e by (simp add: DivBySizeViaMul_exact)
qed

lemma InitAll_ChunkSizes:
  assumes "InitAll = Some SCD"
  shows "map ChunkSize SCD = SCArray"
  using assms unfolding InitAll_eq SCArray_def by (auto simp: ChunkSize_def)

lemma SCArray_ge_16: "\<forall>x \<in> set SCArray. 16 \<le> x"
  unfolding SCArray_def by simp

lemma InitAll_ChunkSize_pos:
  assumes "InitAll = Some SCD" "d \<in> set SCD"
  shows "16 \<le> ChunkSize d"
proof -
  from assms(2) have "ChunkSize d \<in> set (map ChunkSize SCD)" by simp
  then show ?thesis using InitAll_ChunkSizes[OF assms(1)] SCArray_ge_16 by simp
qed

text \<open>
  C4. \<open>InitAll\<close> returns a table of \<open>kNumSizeClasses\<close> descriptors whose chunk sizes are
  the entries of \<open>SCArray\<close>, in order (every candidate passes the reciprocal test as
  it is, none is bumped). Every descriptor of the table has a chunk size of at least
  16 and a multiplier below \<open>2 ^ 32\<close>, and for every offset below the super-page size
  the exact integer computation \<open>(offset * ChunkSizeMulDiv) >> 35\<close>, and with it
  \<open>DivBySizeViaMul\<close>, equals \<open>offset / ChunkSize\<close>, the quotient of a division by a
  positive number.
\<close>

theorem reciprocal_correct:
  "\<exists>SCD. InitAll = Some SCD \<and> length SCD = kNumSizeClasses \<and> map ChunkSize SCD = SCArray \<and>
     (\<forall>d \<in> set SCD. 16 \<le> ChunkSize d \<and> ChunkSizeMulDiv d < 2 ^ 32 \<and>
        (\<forall>offset < kSuperPageSize.
           offset * ChunkSizeMulDiv d div 2 ^ kDivMulShift = offset div ChunkSize d \<and>
           DivBySizeViaMul offset (ChunkSizeMulDiv d) = offset div ChunkSize d \<and>
           DivBySizeViaMul offset (ChunkSizeMulDiv d) * ChunkSize d \<le> offset \<and>
           offset < (DivBySizeViaMul offset (ChunkSizeMulDiv d) + 1) * ChunkSize d))"
proof -
  obtain SCD where S: "InitAll = Some SCD" using InitAll_eq by blast
  have len: "length SCD = kNumSizeClasses"
    using S unfolding InitAll_def kNumSizeClasses_def by (rule InitAll_loop_length)
  have cs: "map ChunkSize SCD = SCArray" by (rule InitAll_ChunkSizes[OF S])
  have "16 \<le> ChunkSize d \<and> ChunkSizeMulDiv d < 2 ^ 32 \<and>
        (\<forall>offset < kSuperPageSize.
           offset * ChunkSizeMulDiv d div 2 ^ kDivMulShift = offset div ChunkSize d \<and>
           DivBySizeViaMul offset (ChunkSizeMulDiv d) = offset div ChunkSize d \<and>
           DivBySizeViaMul offset (ChunkSizeMulDiv d) * ChunkSize d \<le> offset \<and>
           offset < (DivBySizeViaMul offset (ChunkSizeMulDiv d) + 1) * ChunkSize d)"
    if d: "d \<in> set SCD" for d
  proof -
    have pos: "16 \<le> ChunkSize d" by (rule InitAll_ChunkSize_pos[OF S d])
    from S d obtain sc where "InitSizeClass sc = Some d"
      unfolding InitAll_def by (blast dest: InitAll_loop_set)
    from InitSizeClass_SomeD[OF this] have m: "ChunkSizeMulDiv d < 2 ^ 32" by auto
    have "offset * ChunkSizeMulDiv d div 2 ^ kDivMulShift = offset div ChunkSize d \<and>
           DivBySizeViaMul offset (ChunkSizeMulDiv d) = offset div ChunkSize d \<and>
           DivBySizeViaMul offset (ChunkSizeMulDiv d) * ChunkSize d \<le> offset \<and>
           offset < (DivBySizeViaMul offset (ChunkSizeMulDiv d) + 1) * ChunkSize d"
      if o: "offset < kSuperPageSize" for offset
    proof -
      from o have le: "offset \<le> kSuperPageSize" by simp
      note r = InitAll_recip[OF S d le]
      have p: "0 < ChunkSize d" using pos by simp
      have "offset div ChunkSize d * ChunkSize d \<le> offset" by simp
      moreover have "offset < (offset div ChunkSize d + 1) * ChunkSize d"
        using p dividend_less_div_times[of "ChunkSize d" offset] by (simp add: algebra_simps)
      ultimately show ?thesis using r by (simp add: kDivMulShift_def)
    qed
    with pos m show ?thesis by blast
  qed
  with S len cs show ?thesis by blast
qed

theorem reciprocal_correct_witness:
  "\<exists>SCD. InitAll = Some SCD \<and> 2 < length SCD \<and> (1000 :: nat) < kSuperPageSize \<and>
     ChunkSize (SCD ! 2) = 48 \<and>
     1000 * ChunkSizeMulDiv (SCD ! 2) div 2 ^ kDivMulShift = 20 \<and>
     DivBySizeViaMul 1000 (ChunkSizeMulDiv (SCD ! 2)) = 20"
proof -
  from reciprocal_correct obtain SCD where S: "InitAll = Some SCD"
    and len: "length SCD = kNumSizeClasses" and cs: "map ChunkSize SCD = SCArray"
    and all: "\<forall>d \<in> set SCD. 16 \<le> ChunkSize d \<and> ChunkSizeMulDiv d < 2 ^ 32 \<and>
        (\<forall>offset < kSuperPageSize.
           offset * ChunkSizeMulDiv d div 2 ^ kDivMulShift = offset div ChunkSize d \<and>
           DivBySizeViaMul offset (ChunkSizeMulDiv d) = offset div ChunkSize d \<and>
           DivBySizeViaMul offset (ChunkSizeMulDiv d) * ChunkSize d \<le> offset \<and>
           offset < (DivBySizeViaMul offset (ChunkSizeMulDiv d) + 1) * ChunkSize d)"
    by blast
  have l2: "2 < length SCD" using len by (simp add: kNumSizeClasses_def SCArray_def)
  then have mem: "SCD ! 2 \<in> set SCD" by (rule nth_mem)
  have lt: "(1000 :: nat) < kSuperPageSize" by (simp add: kSuperPageSize_def)
  have "ChunkSize (SCD ! 2) = map ChunkSize SCD ! 2" using l2 by simp
  also have "\<dots> = 48" unfolding cs by (simp add: SCArray_def)
  finally have c48: "ChunkSize (SCD ! 2) = 48" .
  from all mem lt have "1000 * ChunkSizeMulDiv (SCD ! 2) div 2 ^ kDivMulShift = 1000 div ChunkSize (SCD ! 2)"
    "DivBySizeViaMul 1000 (ChunkSizeMulDiv (SCD ! 2)) = 1000 div ChunkSize (SCD ! 2)" by blast+
  with c48 have "1000 * ChunkSizeMulDiv (SCD ! 2) div 2 ^ kDivMulShift = 20"
    "DivBySizeViaMul 1000 (ChunkSizeMulDiv (SCD ! 2)) = 20" by simp_all
  with c48 S l2 lt show ?thesis by blast
qed

section \<open>Size classes of request sizes\<close>

lemma SCArray_small: "i < 16 \<Longrightarrow> SCArray ! i = 16 * (i + 1)"
proof -
  have "\<forall>i \<in> set [0..<16]. SCArray ! i = 16 * (i + 1)"
    unfolding SCArray_def by (simp add: upt_rec)
  then show "i < 16 \<Longrightarrow> SCArray ! i = 16 * (i + 1)" by simp
qed

lemma SizeToSizeClass_loop_first:
  assumes "Idx \<le> j" "j < kNumSizeClasses" "Size \<le> ChunkSize (SCD ! j)"
    and "\<forall>i. Idx \<le> i \<and> i < j \<longrightarrow> ChunkSize (SCD ! i) < Size"
  shows "SizeToSizeClass_loop SCD Size Idx = (j, SCD ! j)"
  using assms
proof (induction SCD Size Idx rule: SizeToSizeClass_loop.induct)
  case (1 SCD Size Idx)
  show ?case
  proof (cases "Idx = j")
    case True
    with 1 show ?thesis by (subst SizeToSizeClass_loop.simps) simp
  next
    case False
    with 1 have lt: "Idx < j" by simp
    then have a: "Idx < kNumSizeClasses" and b: "\<not> Size \<le> ChunkSize (SCD ! Idx)"
      using 1 by (auto simp: not_le)
    have "SizeToSizeClass_loop SCD Size (Idx + 1) = (j, SCD ! j)"
      using 1 lt a b by (intro "1.IH") auto
    then show ?thesis using a b by (subst SizeToSizeClass_loop.simps) simp
  qed
qed

text \<open>
  C9. With the table as \<open>InitAll\<close> leaves it, for every request size \<open>n\<close> from 1 to
  262144 \<open>SizeToSizeClass\<close> returns a class of the table together with its descriptor:
  class \<open>(n + 15) / 16 - 1\<close> when \<open>n \<le> 256\<close>, otherwise the first class whose chunk
  size is at least \<open>n\<close>; in both cases the chunk size of the returned class is at least
  \<open>n\<close>.
\<close>

theorem size_to_size_class:
  assumes init: "InitAll = Some SCD" and n1: "1 \<le> n" and n2: "n \<le> 262144"
  shows "\<exists>sc. SizeToSizeClass SCD n = Inr (sc, SCD ! sc) \<and> sc < kNumSizeClasses \<and>
           (n \<le> 256 \<longrightarrow> sc = (n + 15) div 16 - 1) \<and>
           (256 < n \<longrightarrow> (\<forall>j < sc. ChunkSize (SCD ! j) < n)) \<and>
           n \<le> SizeClassToSize SCD sc"
proof -
  have len: "length SCD = kNumSizeClasses"
    using init unfolding InitAll_def kNumSizeClasses_def by (rule InitAll_loop_length)
  have k: "kNumSizeClasses = 67" by (simp add: kNumSizeClasses_def SCArray_def)
  have cs: "ChunkSize (SCD ! i) = SCArray ! i" if "i < 67" for i
  proof -
    have "map ChunkSize SCD ! i = SCArray ! i" using InitAll_ChunkSizes[OF init] by simp
    then show ?thesis using that len k by simp
  qed
  show ?thesis
  proof (cases "n \<le> 256")
    case True
    define sc where "sc = (n + 15) div 16 - 1"
    have q: "1 \<le> (n + 15) div 16" "(n + 15) div 16 \<le> 16" using n1 True by auto
    then have sc16: "sc < 16" by (simp add: sc_def)
    have "(n + 15) mod 2 ^ 64 = n + 15" using True by simp
    moreover have "((n + 15) div 16 + 2 ^ 64 - 1) mod 2 ^ 64 = sc"
    proof -
      have "(n + 15) div 16 + 2 ^ 64 - 1 = sc + 2 ^ 64" using q by (simp add: sc_def)
      moreover have "sc < 2 ^ 64" using sc16 by simp
      ultimately show ?thesis by simp
    qed
    moreover have "sc mod 2 ^ 8 = sc" using sc16 by simp
    ultimately have r: "SizeToSizeClass SCD n = Inr (sc, SCD ! sc)"
      using True sc16 k by (simp add: SizeToSizeClass_def)
    have "ChunkSize (SCD ! sc) = 16 * (sc + 1)"
      using cs[of sc] sc16 by (simp add: SCArray_small)
    also have "\<dots> = 16 * ((n + 15) div 16)" using q by (simp add: sc_def)
    finally have "n \<le> ChunkSize (SCD ! sc)" by simp
    then show ?thesis
      using r True sc16 k by (auto simp: sc_def SizeClassToSize_def)
  next
    case False
    define P where "P = (\<lambda>j. j < 67 \<and> n \<le> SCArray ! j)"
    have "P 66" using n2 by (simp add: P_def SCArray_def)
    define sc where "sc = (LEAST j. P j)"
    have Psc: "P sc" unfolding sc_def using \<open>P 66\<close> by (rule LeastI)
    have least: "\<not> P j" if "j < sc" for j
      using that unfolding sc_def by (rule not_less_Least)
    have sc67: "sc < 67" and ge: "n \<le> SCArray ! sc" using Psc by (simp_all add: P_def)
    have below: "ChunkSize (SCD ! j) < n" if "j < sc" for j
    proof -
      have "j < 67" using that sc67 by simp
      moreover have "\<not> P j" using that by (rule least)
      ultimately show ?thesis using cs[of j] by (simp add: P_def)
    qed
    have "SizeToSizeClass_loop SCD n 0 = (sc, SCD ! sc)"
      using sc67 ge below cs[of sc] k by (intro SizeToSizeClass_loop_first) auto
    then have "SizeToSizeClass SCD n = Inr (sc, SCD ! sc)"
      using False by (simp add: SizeToSizeClass_def)
    then show ?thesis
      using False sc67 k ge below cs[of sc] by (auto simp: SizeClassToSize_def)
  qed
qed

theorem size_to_size_class_witness:
  "\<exists>SCD. InitAll = Some SCD \<and> (1::nat) \<le> 1000 \<and> (1000::nat) \<le> 262144 \<and>
     (\<exists>sc. SizeToSizeClass SCD 1000 = Inr (sc, SCD ! sc) \<and> sc < kNumSizeClasses \<and>
           ((1000::nat) \<le> 256 \<longrightarrow> sc = (1000 + 15) div 16 - 1) \<and>
           ((256::nat) < 1000 \<longrightarrow> (\<forall>j < sc. ChunkSize (SCD ! j) < 1000)) \<and>
           1000 \<le> SizeClassToSize SCD sc)"
proof -
  obtain SCD where S: "InitAll = Some SCD" using InitAll_eq by blast
  have a: "(1::nat) \<le> 1000" and b: "(1000::nat) \<le> 262144" by simp_all
  from size_to_size_class[OF S a b] S a b show ?thesis by blast
qed

section \<open>The two byte searches\<close>

lemma pext_mask_positions:
  "filter (bit (0x0101010101010101 :: u64)) [0..<64] = [0,8,16,24,32,40,48,56]"
  by code_simp

lemma bit_load_u64:
  "bit (load_u64 Bytes Idx) n \<longleftrightarrow> n < 64 \<and> bit (Bytes (Idx + n div 8)) (n mod 8)"
proof -
  let ?ws = "map (\<lambda>k. Bytes (Idx + k)) [0..<8]"
  have "bit (load_u64 Bytes Idx) n \<longleftrightarrow>
        n < 64 \<and> bit (horner_sum uint (2 ^ 8) ?ws) n"
    by (simp add: load_u64_def word_rcat_def bit_word_of_int_iff)
  also have "bit (horner_sum uint (2 ^ 8) ?ws) n \<longleftrightarrow>
        n div 8 < 8 \<and> bit (?ws ! (n div 8)) (n mod 8)"
    using bit_horner_sum_uint_exp_iff[of ?ws n] by simp
  finally show ?thesis by (auto simp: less_mult_imp_div_less)
qed

lemma bit_pext_u64:
  "bit (pext_u64 src msk) k \<longleftrightarrow>
   k < min 64 (length (filter (bit msk) [0..<64])) \<and> bit src (filter (bit msk) [0..<64] ! k)"
  by (auto simp: pext_u64_def bit_horner_sum_bit_word_iff)

lemma bit_pext_mask:
  "bit ((NOT (pext_u64 (load_u64 Bytes Idx) 0x0101010101010101)) AND 0xFF) k \<longleftrightarrow>
   k < 8 \<and> \<not> bit (Bytes (Idx + k)) 0"
proof -
  have ff: "bit (0xFF :: u64) k \<longleftrightarrow> k < 8"
  proof -
    have m: "(0xFF :: u64) = mask 8" by (simp add: mask_eq_exp_minus_1)
    show ?thesis unfolding m by (auto simp: bit_mask_iff)
  qed
  define L :: "nat list" where "L = filter (bit (0x0101010101010101 :: u64)) [0..<64]"
  have L: "L = [0,8,16,24,32,40,48,56]" unfolding L_def by (rule pext_mask_positions)
  have len: "length L = 8" by (simp add: L)
  have nth8: "L ! k = 8 * k" if "k < 8"
  proof -
    have "\<forall>k \<in> {..<8}. L ! k = 8 * k"
      by (simp add: L lessThan_nat_numeral lessThan_Suc)
    then show ?thesis using that by simp
  qed
  have px: "bit (pext_u64 (load_u64 Bytes Idx) 0x0101010101010101) k \<longleftrightarrow> bit (Bytes (Idx + k)) 0"
    if "k < 8"
  proof -
    have "bit (pext_u64 (load_u64 Bytes Idx) 0x0101010101010101) k \<longleftrightarrow>
          bit (load_u64 Bytes Idx) (L ! k)"
      unfolding bit_pext_u64 L_def[symmetric] using that len by simp
    also have "\<dots> \<longleftrightarrow> bit (Bytes (Idx + k)) 0"
      using that by (simp add: nth8 bit_load_u64)
    finally show ?thesis .
  qed
  let ?P = "pext_u64 (load_u64 Bytes Idx) 0x0101010101010101"
  have "bit ((NOT ?P) AND 0xFF) k \<longleftrightarrow> bit (NOT ?P) k \<and> bit (0xFF :: u64) k"
    by (rule bit_and_iff)
  also have "\<dots> \<longleftrightarrow> bit (NOT ?P) k \<and> k < 8"
    by (simp only: ff)
  also have "\<dots> \<longleftrightarrow> k < 8 \<and> \<not> bit ?P k"
    by (auto simp: bit_not_iff)
  also have "\<dots> \<longleftrightarrow> k < 8 \<and> \<not> bit (Bytes (Idx + k)) 0"
    using px by blast
  finally show ?thesis .
qed

lemma bit_clear_lowest:
  fixes w :: u64
  shows "bit (w AND NOT (push_bit n 1)) b \<longleftrightarrow> bit w b \<and> b \<noteq> n"
  by (auto simp: bit_simps dest: bit_imp_le_length)

lemma bit_clear_lowest_pow:
  fixes w :: u64
  shows "bit (w AND NOT (2 ^ n)) b \<longleftrightarrow> bit w b \<and> b \<noteq> n"
  using bit_clear_lowest[of w n b] by simp

lemma FindByte_PEXT_inner_Some:
  "FindByte_PEXT_inner N CB Idx Mask = Some p \<Longrightarrow>
   \<exists>b. bit Mask b \<and> p = Idx + b \<and> p < N \<and> CB p"
proof (induction N CB Idx Mask rule: FindByte_PEXT_inner.induct)
  case (1 N CB Idx Mask)
  from "1.prems" have nz: "Mask \<noteq> 0"
    by (subst (asm) FindByte_PEXT_inner.simps) (auto split: if_splits)
  let ?b = "builtin_ctz Mask"
  have bit: "bit Mask ?b" using nz by (rule builtin_ctz_bit)
  from "1.prems" nz have lt: "\<not> N \<le> Idx + ?b"
    by (subst (asm) FindByte_PEXT_inner.simps) (auto simp: Let_def split: if_splits)
  show ?case
  proof (cases "CB (Idx + ?b)")
    case True
    with "1.prems" nz lt have "p = Idx + ?b"
      by (subst (asm) FindByte_PEXT_inner.simps) (auto simp: Let_def)
    with True lt bit show ?thesis by auto
  next
    case False
    with "1.prems" nz lt
    have "FindByte_PEXT_inner N CB Idx (Mask AND NOT (push_bit ?b 1)) = Some p"
      by (subst (asm) FindByte_PEXT_inner.simps) (auto simp: Let_def)
    from "1.IH"[OF nz refl refl refl lt False this]
    show ?thesis by (auto simp: bit_clear_lowest_pow)
  qed
qed

lemma FindByte_PEXT_inner_None:
  "FindByte_PEXT_inner N CB Idx Mask = None \<Longrightarrow> bit Mask b \<Longrightarrow> Idx + b < N \<Longrightarrow>
   \<not> CB (Idx + b)"
proof (induction N CB Idx Mask rule: FindByte_PEXT_inner.induct)
  case (1 N CB Idx Mask)
  from "1.prems"(2) have nz: "Mask \<noteq> 0" by auto
  let ?b = "builtin_ctz Mask"
  have ge: "?b \<le> b"
    using "1.prems"(2) builtin_ctz_least[of b Mask] by (auto simp: not_less[symmetric])
  then have lt: "\<not> N \<le> Idx + ?b" using "1.prems"(3) by simp
  have ncb: "\<not> CB (Idx + ?b)"
    using "1.prems"(1) nz lt
    by (subst (asm) FindByte_PEXT_inner.simps) (auto simp: Let_def split: if_splits)
  show ?case
  proof (cases "b = ?b")
    case True
    with ncb show ?thesis by simp
  next
    case False
    from "1.prems"(1) nz lt ncb
    have "FindByte_PEXT_inner N CB Idx (Mask AND NOT (push_bit ?b 1)) = None"
      by (subst (asm) FindByte_PEXT_inner.simps) (auto simp: Let_def)
    moreover have "bit (Mask AND NOT (push_bit ?b 1)) b"
      using "1.prems"(2) False by (simp add: bit_clear_lowest_pow)
    ultimately show ?thesis
      using "1.IH"[OF nz refl refl refl lt ncb] "1.prems"(3) by blast
  qed
qed

lemma FindByte_Plain_loop_spec:
  "(\<exists>i. I \<le> i \<and> i < N \<and> FindByte_Plain_loop Bytes V N H CB I = rotate_idx N H i
              \<and> Bytes (rotate_idx N H i) = V \<and> CB (rotate_idx N H i))
       \<or> (FindByte_Plain_loop Bytes V N H CB I = size_t_minus_1
            \<and> (\<forall>i. I \<le> i \<and> i < N \<longrightarrow> \<not> (Bytes (rotate_idx N H i) = V \<and> CB (rotate_idx N H i))))"
proof (induction Bytes V N H CB I rule: FindByte_Plain_loop.induct)
  case (1 Bytes V N H CB I)
  show ?case
  proof (cases "I < N")
    case False
    then have "FindByte_Plain_loop Bytes V N H CB I = size_t_minus_1"
      by (subst FindByte_Plain_loop.simps) simp
    moreover have "\<forall>i. I \<le> i \<and> i < N \<longrightarrow> \<not> (Bytes (rotate_idx N H i) = V \<and> CB (rotate_idx N H i))"
      using False by auto
    ultimately show ?thesis by blast
  next
    case True
    have step: "FindByte_Plain_loop Bytes V N H CB I =
                (if Bytes (rotate_idx N H I) = V \<and> CB (rotate_idx N H I) then rotate_idx N H I
                 else FindByte_Plain_loop Bytes V N H CB (I + 1))"
      using True by (subst FindByte_Plain_loop.simps) (simp add: rotate_idx_def Let_def)
    show ?thesis
    proof (cases "Bytes (rotate_idx N H I) = V \<and> CB (rotate_idx N H I)")
      case hit: True
      then have "FindByte_Plain_loop Bytes V N H CB I = rotate_idx N H I"
        using step by simp
      with hit True show ?thesis by blast
    next
      case miss: False
      then have eq: "FindByte_Plain_loop Bytes V N H CB I = FindByte_Plain_loop Bytes V N H CB (I + 1)"
        unfolding step by (simp only: if_False)
      have IH: "(\<exists>i. I + 1 \<le> i \<and> i < N \<and> FindByte_Plain_loop Bytes V N H CB (I + 1) = rotate_idx N H i
              \<and> Bytes (rotate_idx N H i) = V \<and> CB (rotate_idx N H i))
       \<or> (FindByte_Plain_loop Bytes V N H CB (I + 1) = size_t_minus_1
            \<and> (\<forall>i. I + 1 \<le> i \<and> i < N \<longrightarrow> \<not> (Bytes (rotate_idx N H i) = V \<and> CB (rotate_idx N H i))))"
        using miss True by (intro "1.IH"[unfolded rotate_idx_def[symmetric]]) (auto simp: rotate_idx_def)
      then show ?thesis
      proof
        assume "\<exists>i. I + 1 \<le> i \<and> i < N \<and> FindByte_Plain_loop Bytes V N H CB (I + 1) = rotate_idx N H i
              \<and> Bytes (rotate_idx N H i) = V \<and> CB (rotate_idx N H i)"
        then obtain i where "I + 1 \<le> i" "i < N" "FindByte_Plain_loop Bytes V N H CB (I + 1) = rotate_idx N H i"
           "Bytes (rotate_idx N H i) = V" "CB (rotate_idx N H i)" by blast
        then have "I \<le> i \<and> i < N \<and> FindByte_Plain_loop Bytes V N H CB I = rotate_idx N H i
              \<and> Bytes (rotate_idx N H i) = V \<and> CB (rotate_idx N H i)" using eq by simp
        then show ?thesis by blast
      next
        assume a: "FindByte_Plain_loop Bytes V N H CB (I + 1) = size_t_minus_1
            \<and> (\<forall>i. I + 1 \<le> i \<and> i < N \<longrightarrow> \<not> (Bytes (rotate_idx N H i) = V \<and> CB (rotate_idx N H i)))"
        have "\<not> (Bytes (rotate_idx N H i) = V \<and> CB (rotate_idx N H i))" if "I \<le> i \<and> i < N" for i
        proof (cases "i = I")
          case True then show ?thesis using miss by simp
        next
          case False
          then have "I + 1 \<le> i \<and> i < N" using that by simp
          then show ?thesis using a by blast
        qed
        then show ?thesis using a eq by auto
      qed
    qed
  qed
qed

lemma FindByte_PEXT_loop_step:
  "I < N \<Longrightarrow> FindByte_PEXT_loop Bytes N NR H CB I =
     (case FindByte_PEXT_inner N CB (rotate_idx NR H I) (PEXT_mask Bytes (rotate_idx NR H I)) of
        Some Pos \<Rightarrow> Pos
      | None \<Rightarrow> FindByte_PEXT_loop Bytes N NR H CB (I + 8))"
  by (subst FindByte_PEXT_loop.simps) (simp add: rotate_idx_def PEXT_mask_def Let_def)

lemma FindByte_PEXT_loop_spec:
  "(\<exists>j. I + 8 * j < N \<and>
        FindByte_PEXT_inner N CB (rotate_idx NR H (I + 8 * j)) (PEXT_mask Bytes (rotate_idx NR H (I + 8 * j)))
          = Some (FindByte_PEXT_loop Bytes N NR H CB I))
   \<or> (FindByte_PEXT_loop Bytes N NR H CB I = size_t_minus_1 \<and>
       (\<forall>j. I + 8 * j < N \<longrightarrow>
          FindByte_PEXT_inner N CB (rotate_idx NR H (I + 8 * j)) (PEXT_mask Bytes (rotate_idx NR H (I + 8 * j)))
            = None))"
proof (induction Bytes N NR H CB I rule: FindByte_PEXT_loop.induct)
  case (1 Bytes N NR H CB I)
  let ?inner = "\<lambda>i. FindByte_PEXT_inner N CB (rotate_idx NR H i) (PEXT_mask Bytes (rotate_idx NR H i))"
  show ?case
  proof (cases "I < N")
    case False
    then have "FindByte_PEXT_loop Bytes N NR H CB I = size_t_minus_1"
      by (subst FindByte_PEXT_loop.simps) simp
    moreover have "\<forall>j. I + 8 * j < N \<longrightarrow> ?inner (I + 8 * j) = None"
      using False by auto
    ultimately show ?thesis by blast
  next
    case True
    note step = FindByte_PEXT_loop_step[OF True, of Bytes NR H CB]
    show ?thesis
    proof (cases "?inner I")
      case (Some p)
      then have "FindByte_PEXT_loop Bytes N NR H CB I = p" using step by simp
      with Some True have "I + 8 * 0 < N \<and> ?inner (I + 8 * 0) = Some (FindByte_PEXT_loop Bytes N NR H CB I)"
        by simp
      then show ?thesis by blast
    next
      case None
      then have eq: "FindByte_PEXT_loop Bytes N NR H CB I = FindByte_PEXT_loop Bytes N NR H CB (I + 8)"
        using step by simp
      have IH: "(\<exists>j. I + 8 + 8 * j < N \<and> ?inner (I + 8 + 8 * j) = Some (FindByte_PEXT_loop Bytes N NR H CB (I + 8)))
         \<or> (FindByte_PEXT_loop Bytes N NR H CB (I + 8) = size_t_minus_1 \<and>
             (\<forall>j. I + 8 + 8 * j < N \<longrightarrow> ?inner (I + 8 + 8 * j) = None))"
        using None
        by (intro "1.IH"[OF True refl refl refl refl refl])
           (simp_all add: rotate_idx_def PEXT_mask_def)
      then show ?thesis
      proof
        assume "\<exists>j. I + 8 + 8 * j < N \<and> ?inner (I + 8 + 8 * j) = Some (FindByte_PEXT_loop Bytes N NR H CB (I + 8))"
        then obtain j where j: "I + 8 + 8 * j < N"
          "?inner (I + 8 + 8 * j) = Some (FindByte_PEXT_loop Bytes N NR H CB (I + 8))" by blast
        have e: "I + 8 + 8 * j = I + 8 * Suc j" by simp
        from j have "I + 8 * Suc j < N \<and> ?inner (I + 8 * Suc j) = Some (FindByte_PEXT_loop Bytes N NR H CB I)"
          unfolding e eq by simp
        then show ?thesis by blast
      next
        assume a: "FindByte_PEXT_loop Bytes N NR H CB (I + 8) = size_t_minus_1 \<and>
             (\<forall>j. I + 8 + 8 * j < N \<longrightarrow> ?inner (I + 8 + 8 * j) = None)"
        have "?inner (I + 8 * j) = None" if "I + 8 * j < N" for j
        proof (cases j)
          case 0 then show ?thesis using None by simp
        next
          case (Suc k)
          then have e: "I + 8 * j = I + 8 + 8 * k" by simp
          show ?thesis using a that unfolding e by blast
        qed
        then show ?thesis using a eq by auto
      qed
    qed
  qed
qed

lemma RoundUpTo_8: "n + 8 \<le> 2 ^ 64 \<Longrightarrow> RoundUpTo n 8 = ((n + 7) div 8) * 8"
  using RoundUpTo_pow2[of n 3] by simp

lemma RoundDownTo_8: "n < 2 ^ 64 \<Longrightarrow> RoundDownTo n 8 = (n div 8) * 8"
  using RoundDownTo_pow2[of n 3] by simp

lemma rotate_idx_onto:
  assumes "H \<le> N" "j < N"
  shows "\<exists>i < N. rotate_idx N H i = j"
proof (cases "H \<le> j")
  case True
  then have "j - H < N \<and> rotate_idx N H (j - H) = j"
    using assms by (simp add: rotate_idx_def)
  then show ?thesis by blast
next
  case False
  then have "j + N - H < N \<and> rotate_idx N H (j + N - H) = j"
    using assms by (simp add: rotate_idx_def)
  then show ?thesis by blast
qed

lemma rotate_idx_less:
  assumes "H \<le> N" "i < N"
  shows "rotate_idx N H i < N"
  using assms unfolding rotate_idx_def by (cases "N \<le> i + H") auto

lemma PEXT_blocks_cover:
  assumes NR: "NR = n * 8" and H: "H = h * 8" and hn: "h \<le> n"
    and N: "N \<le> NR" "NR < N + 8" and i: "i < N"
  shows "\<exists>j k. 8 * j < N \<and> k < 8 \<and> rotate_idx NR H (0 + 8 * j) + k = i"
proof -
  define B where "B = i div 8"
  define k where "k = i mod 8"
  have ik: "i = 8 * B + k" and k8: "k < 8" by (simp_all add: B_def k_def)
  have Bn: "B < n" using i N(1) NR ik by simp
  show ?thesis
  proof (cases "h \<le> B")
    case True
    define j where "j = B - h"
    have "8 * j + H = 8 * B" using True H by (simp add: j_def)
    moreover have "8 * B < NR" using Bn NR by simp
    ultimately have "rotate_idx NR H (0 + 8 * j) = 8 * B" by (simp add: rotate_idx_def)
    moreover have "8 * j < N" using i ik by (simp add: j_def)
    ultimately show ?thesis using k8 ik by auto
  next
    case False
    define j where "j = B + n - h"
    have "8 * j + H = 8 * B + NR" using False hn H NR by (simp add: j_def)
    then have "rotate_idx NR H (0 + 8 * j) = 8 * B" by (simp add: rotate_idx_def)
    moreover have "j + 1 \<le> n" using False hn by (simp add: j_def)
    then have "8 * j + 8 \<le> NR" using NR by simp
    then have "8 * j < N" using N(2) by simp
    ultimately show ?thesis using k8 ik by auto
  qed
qed

text \<open>
  C10. For a byte array whose first \<open>N\<close> entries are each 0 or odd, a start hint of at
  most \<open>N\<close> and a callback that depends on the position only, \<open>FindByte_PEXT\<close> and
  \<open>FindByte_Plain\<close> both return, \<open>FindByte_PEXT\<close> returns \<open>(size_t)-1\<close> exactly
  when \<open>FindByte_Plain\<close> does, and a result other than \<open>(size_t)-1\<close>, of either, is an
  index \<open>i < N\<close> with \<open>Bytes[i] = 0\<close> that the callback accepts. (\<open>N < 2 ^ 63\<close>: no object
  is larger than \<open>PTRDIFF_MAX\<close>.)
\<close>

theorem FindByte_PEXT_agrees_with_Plain:
  assumes N: "N < 2 ^ 63" and hint: "StartPosHint \<le> N"
    and inv: "\<forall>i < N. Bytes i = 0 \<or> bit (Bytes i) 0"
  shows "\<exists>r p. FindByte_PEXT Bytes 0 N StartPosHint CB = Inr r \<and>
               FindByte_Plain Bytes 0 N StartPosHint CB = Inr p \<and>
               (r = size_t_minus_1 \<longleftrightarrow> p = size_t_minus_1) \<and>
               (r \<noteq> size_t_minus_1 \<longrightarrow> r < N \<and> Bytes r = 0 \<and> CB r) \<and>
               (p \<noteq> size_t_minus_1 \<longrightarrow> p < N \<and> Bytes p = 0 \<and> CB p)"
proof -
  define NR where "NR = RoundUpTo N 8"
  define H where "H = RoundDownTo StartPosHint 8"
  define r where "r = FindByte_PEXT_loop Bytes N NR H CB 0"
  define p where "p = FindByte_Plain_loop Bytes 0 N StartPosHint CB 0"
  have R: "FindByte_PEXT Bytes 0 N StartPosHint CB = Inr r"
    using hint by (simp add: FindByte_PEXT_def NR_def H_def r_def Let_def)
  have P: "FindByte_Plain Bytes 0 N StartPosHint CB = Inr p"
    using hint by (simp add: FindByte_Plain_def p_def)
  have NR: "NR = ((N + 7) div 8) * 8"
    unfolding NR_def using N by (intro RoundUpTo_8) simp
  have H: "H = (StartPosHint div 8) * 8"
    unfolding H_def using N hint by (intro RoundDownTo_8) simp
  have N_le: "N \<le> NR" and NR_lt: "NR < N + 8" unfolding NR by presburger+
  have hn: "StartPosHint div 8 \<le> (N + 7) div 8"
    using hint by (intro div_le_mono) simp
  have HNR: "H \<le> NR" unfolding H NR using hn by simp
  have big: "N < size_t_minus_1" using N by (simp add: size_t_minus_1_def)
  \<comment> \<open>what a hit of either search is\<close>
  have r_hit: "r < N \<and> Bytes r = 0 \<and> CB r" if "r \<noteq> size_t_minus_1"
  proof -
    from FindByte_PEXT_loop_spec[of 0 N CB NR H Bytes] that
    obtain j where "FindByte_PEXT_inner N CB (rotate_idx NR H (0 + 8 * j))
                       (PEXT_mask Bytes (rotate_idx NR H (0 + 8 * j))) = Some r"
      unfolding r_def by blast
    from FindByte_PEXT_inner_Some[OF this]
    obtain b where b: "bit (PEXT_mask Bytes (rotate_idx NR H (0 + 8 * j))) b"
      and rb: "r = rotate_idx NR H (0 + 8 * j) + b" and rN: "r < N" and cb: "CB r"
      by blast
    from b have "\<not> bit (Bytes r) 0"
      unfolding PEXT_mask_def bit_pext_mask rb by simp
    with inv rN have "Bytes r = 0" by blast
    with rN cb show ?thesis by simp
  qed
  have p_hit: "p < N \<and> Bytes p = 0 \<and> CB p" if "p \<noteq> size_t_minus_1"
  proof -
    from FindByte_Plain_loop_spec[of 0 N Bytes 0 StartPosHint CB] that
    obtain i where "i < N" "p = rotate_idx N StartPosHint i" "Bytes p = 0" "CB p"
      unfolding p_def by auto
    then show ?thesis using rotate_idx_less[OF hint] by simp
  qed
  \<comment> \<open>what a miss of either search is\<close>
  have r_miss: "\<not> (Bytes i = 0 \<and> CB i)" if "r = size_t_minus_1" "i < N" for i
  proof
    assume a: "Bytes i = 0 \<and> CB i"
    from PEXT_blocks_cover[OF NR H hn N_le NR_lt that(2)]
    obtain j k where j: "8 * j < N" and k: "k < 8"
      and i: "rotate_idx NR H (0 + 8 * j) + k = i" by blast
    have none: "FindByte_PEXT_inner N CB (rotate_idx NR H (0 + 8 * j))
                       (PEXT_mask Bytes (rotate_idx NR H (0 + 8 * j))) = None"
    proof -
      from FindByte_PEXT_loop_spec[of 0 N CB NR H Bytes]
      show ?thesis
      proof
        assume "\<exists>j. 0 + 8 * j < N \<and>
          FindByte_PEXT_inner N CB (rotate_idx NR H (0 + 8 * j))
            (PEXT_mask Bytes (rotate_idx NR H (0 + 8 * j))) =
          Some (FindByte_PEXT_loop Bytes N NR H CB 0)"
        then obtain j' where "FindByte_PEXT_inner N CB (rotate_idx NR H (0 + 8 * j'))
            (PEXT_mask Bytes (rotate_idx NR H (0 + 8 * j'))) = Some r"
          unfolding r_def by blast
        from FindByte_PEXT_inner_Some[OF this] have "r < N" by blast
        with that(1) big show ?thesis by simp
      next
        assume "FindByte_PEXT_loop Bytes N NR H CB 0 = size_t_minus_1 \<and>
          (\<forall>j. 0 + 8 * j < N \<longrightarrow>
             FindByte_PEXT_inner N CB (rotate_idx NR H (0 + 8 * j))
               (PEXT_mask Bytes (rotate_idx NR H (0 + 8 * j))) = None)"
        with j show ?thesis by simp
      qed
    qed
    have "bit (PEXT_mask Bytes (rotate_idx NR H (0 + 8 * j))) k"
      unfolding PEXT_mask_def bit_pext_mask using k a i by simp
    from FindByte_PEXT_inner_None[OF none this] that(2) i a
    show False by simp
  qed
  have p_miss: "\<not> (Bytes i = 0 \<and> CB i)" if "p = size_t_minus_1" "i < N" for i
  proof -
    from rotate_idx_onto[OF hint that(2)] obtain i' where i': "i' < N" "rotate_idx N StartPosHint i' = i"
      by blast
    from FindByte_Plain_loop_spec[of 0 N Bytes 0 StartPosHint CB]
    show ?thesis
    proof
      assume "\<exists>i\<ge>0. i < N \<and> FindByte_Plain_loop Bytes 0 N StartPosHint CB 0 = rotate_idx N StartPosHint i
              \<and> Bytes (rotate_idx N StartPosHint i) = 0 \<and> CB (rotate_idx N StartPosHint i)"
      then obtain i2 where "i2 < N" "p = rotate_idx N StartPosHint i2" unfolding p_def by blast
      then have "p < N" using rotate_idx_less[OF hint] by simp
      with that(1) big show ?thesis by simp
    next
      assume "FindByte_Plain_loop Bytes 0 N StartPosHint CB 0 = size_t_minus_1 \<and>
        (\<forall>i. 0 \<le> i \<and> i < N \<longrightarrow>
          \<not> (Bytes (rotate_idx N StartPosHint i) = 0 \<and> CB (rotate_idx N StartPosHint i)))"
      with i' show ?thesis by auto
    qed
  qed
  have "r = size_t_minus_1 \<longleftrightarrow> p = size_t_minus_1"
  proof
    assume a: "r = size_t_minus_1"
    show "p = size_t_minus_1"
    proof (rule ccontr)
      assume "p \<noteq> size_t_minus_1"
      from p_hit[OF this] r_miss[OF a, of p] show False by simp
    qed
  next
    assume a: "p = size_t_minus_1"
    show "r = size_t_minus_1"
    proof (rule ccontr)
      assume "r \<noteq> size_t_minus_1"
      from r_hit[OF this] p_miss[OF a, of r] show False by simp
    qed
  qed
  with R P r_hit p_hit show ?thesis by blast
qed

theorem FindByte_PEXT_agrees_with_Plain_witness:
  "(10 :: nat) < 2 ^ 63 \<and> (9 :: nat) \<le> 10 \<and>
   (\<exists>r p. FindByte_PEXT (\<lambda>i. if i = 3 then 0 else 1) 0 10 9 (\<lambda>i. True) = Inr r \<and>
          FindByte_Plain (\<lambda>i. if i = 3 then 0 else 1) 0 10 9 (\<lambda>i. True) = Inr p \<and>
          (r = size_t_minus_1 \<longleftrightarrow> p = size_t_minus_1) \<and>
          (r \<noteq> size_t_minus_1 \<longrightarrow> r < 10 \<and> (if r = 3 then 0 else 1 :: u8) = 0 \<and> True) \<and>
          (p \<noteq> size_t_minus_1 \<longrightarrow> p < 10 \<and> (if p = 3 then 0 else 1 :: u8) = 0 \<and> True))"
proof -
  have a: "(10 :: nat) < 2 ^ 63" and b: "(9 :: nat) \<le> 10" by simp_all
  have c: "\<forall>i < (10 :: nat). (if i = 3 then 0 else 1 :: u8) = 0 \<or> bit (if i = 3 then 0 else 1 :: u8) 0"
    by simp
  from FindByte_PEXT_agrees_with_Plain[of 10 9 "\<lambda>i. if i = 3 then 0 else 1" "\<lambda>i. True", OF a b c] a b c
  show ?thesis by simp
qed

lemma FindByte_PEXT_example:
  "FindByte_PEXT (\<lambda>i. if i = 3 then 0 else 1) 0 10 9 (\<lambda>i. True) = Inr 3"
  by code_simp

lemma FindByte_Plain_example:
  "FindByte_Plain (\<lambda>i. if i = 3 then 0 else 1) 0 10 9 (\<lambda>i. True) = Inr 3"
  by code_simp

section \<open>Quarantining a chunk\<close>

lemma SCDescr_0:
  "the InitAll ! 0 = \<lparr>RangeNum = 0, NumChunks = 30840, ChunkSizeDiv16 = 1, ChunkSizeMulDiv = 2147483648\<rparr>"
  by (simp add: InitAll_eq)

lemma length_the_InitAll: "length (the InitAll) = 67"
  by (simp add: InitAll_eq)

lemma GetSCD_one_used_chunk:
  "GetSCD (one_used_chunk cfg tag) kAllocatorSpace =
     Inr \<lparr>RangeNum = 0, NumChunks = 30840, ChunkSizeDiv16 = 1, ChunkSizeMulDiv = 2147483648\<rparr>"
  by (simp add: GetSCD_def GetSizeClass_def one_used_chunk_def zero_Allocator_def
      FixedShadow_IsMine_def FixedShadow_Index_def kAllocatorSpace_def kAllocatorSize_def
      kSuperPageSize_def SCDescr_0 length_the_InitAll)

lemma State_class0:
  "State kAllocatorSpace 30840 0 = InSuperPage (kAllocatorSpace + kSuperPageSize - 30848)"
  by (simp add: State_def SizeOfInlineMeta_def kStateArrayAlignment_def RoundUpTo_def)

text \<open>
  What \<open>SuperPage::Quarantine\<close> does on a chunk that is in use: the new tag decides
  between quarantine and immediate reuse.
\<close>

lemma SuperPage_Quarantine_used:
  assumes scd: "GetSCD st This = Inr SCD"
    and idx: "ComputeStatePtr Ptr SCD = Inr Idx"
    and tag: "UpdateMemoryTagOnFree st Ptr (ChunkSize SCD) = Inr (NewTag, st')"
    and used: "load_state st' (State This (NumChunks SCD) (RangeNum SCD)) Idx \<in> {USED_MIXED, USED_DATA}"
  shows "SuperPage_Quarantine st This Ptr =
           (if (UseTag (Config st') = 1 \<and> NewTag AND 15 \<noteq> 0) \<or>
               (UseTag (Config st') = 2 \<and> NewTag \<noteq> 0)
            then Inr (0, store_state st' (State This (NumChunks SCD) (RangeNum SCD)) Idx AVAILABLE)
            else Inr (ChunkSize SCD,
                      store_state st' (State This (NumChunks SCD) (RangeNum SCD)) Idx QUARANTINED))"
proof -
  have m: "NewTag AND 255 = NewTag"
  proof -
    have "(255 :: u8) = - 1" by simp
    then show ?thesis by (simp only: and.right_neutral)
  qed
  have ne: "QUARANTINED \<noteq> AVAILABLE" by (simp add: QUARANTINED_def AVAILABLE_def)
  show ?thesis
    using used ne
    by (auto simp: SuperPage_Quarantine_def scd idx tag m ExchangeAndCheckForDoubleFree_def Let_def)
qed

lemma load_store_state_same [simp]: "load_state (store_state st S i v) S i = v"
  by (cases S) (simp_all add: load_state_def store_state_def)

lemma ComputeStatePtr_base: "ComputeStatePtr kAllocatorSpace (the InitAll ! 0) = Inr 0"
  by (simp add: ComputeStatePtr_def SCDescr_0 kAllocatorSpace_def kSuperPageSize_def
      DivBySizeViaMul_def ChunkSize_def)

lemma UpdateMemoryTagOnFree_one_used_chunk:
  "UpdateMemoryTagOnFree (one_used_chunk tagging_config tag) kAllocatorSpace 16 =
     Inr (tag + 1, (one_used_chunk tagging_config tag)
                     \<lparr>SmallShadow := (SmallShadow (one_used_chunk tagging_config tag))(0 := tag + 1)\<rparr>)"
  by (simp add: UpdateMemoryTagOnFree_def GetMemoryTag_def SetMemoryTag_def
      FixedShadow_SetRange_def FixedShadow_IsMine_def FixedShadow_Index_def
      one_used_chunk_def zero_Allocator_def tagging_config_def
      kAllocatorSpace_def kAllocatorSize_def Let_def)

text \<open>
  C5, as the code has it. \<open>SuperPage::Quarantine\<close> on a chunk that is in use sets the
  chunk's state byte to \<open>QUARANTINED\<close> and returns the chunk size, except that when
  \<open>UseTag = 1\<close> and the new memory tag has a non-zero low nibble, or \<open>UseTag = 2\<close> and
  the new tag byte is non-zero, the state byte becomes \<open>AVAILABLE\<close> and the result is 0.
\<close>

theorem Quarantine_sets_state:
  assumes "GetSCD st This = Inr SCD"
    and "ComputeStatePtr Ptr SCD = Inr Idx"
    and "UpdateMemoryTagOnFree st Ptr (ChunkSize SCD) = Inr (NewTag, st')"
    and "load_state st' (State This (NumChunks SCD) (RangeNum SCD)) Idx \<in> {USED_MIXED, USED_DATA}"
  shows "\<exists>st''. SuperPage_Quarantine st This Ptr =
                  Inr (if (UseTag (Config st) = 1 \<and> NewTag AND 15 \<noteq> 0) \<or>
                          (UseTag (Config st) = 2 \<and> NewTag \<noteq> 0)
                       then 0 else ChunkSize SCD, st'') \<and>
               load_state st'' (State This (NumChunks SCD) (RangeNum SCD)) Idx =
                 (if (UseTag (Config st) = 1 \<and> NewTag AND 15 \<noteq> 0) \<or>
                     (UseTag (Config st) = 2 \<and> NewTag \<noteq> 0)
                  then AVAILABLE else QUARANTINED)"
proof -
  have cfg: "Config st' = Config st"
    using assms(3)
    by (auto simp: UpdateMemoryTagOnFree_def SetMemoryTag_def Let_def
        split: if_splits sum.splits)
  show ?thesis
    unfolding SuperPage_Quarantine_used[OF assms] cfg by auto
qed

theorem Quarantine_sets_state_witness:
  "\<exists>st''. SuperPage_Quarantine (one_used_chunk tagging_config 0) kAllocatorSpace kAllocatorSpace
            = Inr (0, st'') \<and>
          load_state st'' (State kAllocatorSpace 30840 0) 0 = AVAILABLE"
proof -
  let ?st = "one_used_chunk tagging_config 0"
  let ?SCD = "\<lparr>RangeNum = 0, NumChunks = 30840, ChunkSizeDiv16 = 1, ChunkSizeMulDiv = 2147483648\<rparr>"
  have a: "GetSCD ?st kAllocatorSpace = Inr ?SCD" by (rule GetSCD_one_used_chunk)
  have b: "ComputeStatePtr kAllocatorSpace ?SCD = Inr 0"
    using ComputeStatePtr_base by (simp add: SCDescr_0)
  have c: "UpdateMemoryTagOnFree ?st kAllocatorSpace (ChunkSize ?SCD) =
             Inr (1, ?st\<lparr>SmallShadow := (SmallShadow ?st)(0 := 1)\<rparr>)"
    using UpdateMemoryTagOnFree_one_used_chunk[of 0] by (simp add: ChunkSize_def)
  have d: "load_state (?st\<lparr>SmallShadow := (SmallShadow ?st)(0 := 1)\<rparr>)
             (State kAllocatorSpace (NumChunks ?SCD) (RangeNum ?SCD)) 0 \<in> {USED_MIXED, USED_DATA}"
    by (simp add: State_class0 load_state_def one_used_chunk_def zero_Allocator_def)
  have e: "UseTag (Config ?st) = 1"
    by (simp add: one_used_chunk_def zero_Allocator_def tagging_config_def)
  from Quarantine_sets_state[OF a b c d] e show ?thesis by simp
qed

text \<open>
  C5 as the spec words it fails: with \<open>UseTag = 1\<close> and an old tag of 15 the new
  memory tag is 16, whose low nibble is 0, and the chunk is quarantined, not made
  available; the result is the chunk size, not 0.
\<close>

theorem Quarantine_safe_tag_counterexample:
  "UseTag (Config (one_used_chunk tagging_config 15)) = 1 \<and>
   map_sum id fst (UpdateMemoryTagOnFree (one_used_chunk tagging_config 15) kAllocatorSpace 16) = Inr 16 \<and>
   (16 :: u8) AND 15 = 0 \<and>
   map_sum id fst (SuperPage_Quarantine (one_used_chunk tagging_config 15) kAllocatorSpace kAllocatorSpace)
     = Inr 16 \<and>
   map_sum id (\<lambda>r. load_state (snd r) (State kAllocatorSpace 30840 0) 0)
     (SuperPage_Quarantine (one_used_chunk tagging_config 15) kAllocatorSpace kAllocatorSpace)
     = Inr QUARANTINED"
proof -
  let ?st = "one_used_chunk tagging_config 15"
  let ?SCD = "\<lparr>RangeNum = 0, NumChunks = 30840, ChunkSizeDiv16 = 1, ChunkSizeMulDiv = 2147483648\<rparr>"
  have a: "GetSCD ?st kAllocatorSpace = Inr ?SCD" by (rule GetSCD_one_used_chunk)
  have b: "ComputeStatePtr kAllocatorSpace ?SCD = Inr 0"
    using ComputeStatePtr_base by (simp add: SCDescr_0)
  have c: "UpdateMemoryTagOnFree ?st kAllocatorSpace (ChunkSize ?SCD) =
             Inr (16, ?st\<lparr>SmallShadow := (SmallShadow ?st)(0 := 16)\<rparr>)"
    using UpdateMemoryTagOnFree_one_used_chunk[of 15] by (simp add: ChunkSize_def)
  have d: "load_state (?st\<lparr>SmallShadow := (SmallShadow ?st)(0 := 16)\<rparr>)
             (State kAllocatorSpace (NumChunks ?SCD) (RangeNum ?SCD)) 0 \<in> {USED_MIXED, USED_DATA}"
    by (simp add: State_class0 load_state_def one_used_chunk_def zero_Allocator_def)
  have e: "UseTag (Config ?st) = 1"
    by (simp add: one_used_chunk_def zero_Allocator_def tagging_config_def)
  have cs: "ChunkSize ?SCD = 16" by (simp add: ChunkSize_def)
  have q: "SuperPage_Quarantine ?st kAllocatorSpace kAllocatorSpace =
           Inr (16, store_state (?st\<lparr>SmallShadow := (SmallShadow ?st)(0 := 16)\<rparr>)
                      (State kAllocatorSpace 30840 0) 0 QUARANTINED)"
    unfolding SuperPage_Quarantine_used[OF a b c d] using e cs by simp
  show ?thesis
    using e c cs unfolding q by simp
qed

section \<open>Address tags and memory tags\<close>

lemma mask_u64_15: "(15 :: u64) = mask 4" by (simp add: mask_eq_exp_minus_1)
lemma mask_u8_15: "(15 :: u8) = mask 4" by (simp add: mask_eq_exp_minus_1)
















section \<open>Alignment of returned pointers\<close>

lemma builtin_ctz_eq:
  fixes w :: u64
  assumes "bit w k" "\<forall>j<k. \<not> bit w j"
  shows "builtin_ctz w = k"
proof -
  have nz: "w \<noteq> 0" using assms(1) by auto
  have "\<not> k < builtin_ctz w" using builtin_ctz_least[of k w] assms(1) by blast
  moreover have "\<not> builtin_ctz w < k" using builtin_ctz_bit[OF nz] assms(2) by blast
  ultimately show ?thesis by simp
qed

lemma FindByte_PEXT_inner_lowest:
  assumes "bit Mask k" "\<forall>j<k. \<not> bit Mask j" "Idx + k < N" "CB (Idx + k)"
  shows "FindByte_PEXT_inner N CB Idx Mask = Some (Idx + k)"
proof -
  have nz: "Mask \<noteq> 0" using assms(1) by auto
  have c: "builtin_ctz Mask = k" using assms(1,2) by (rule builtin_ctz_eq)
  show ?thesis
    using nz assms(3,4) by (subst FindByte_PEXT_inner.simps) (simp add: c Let_def)
qed

lemma FindByte_PEXT_lowest:
  assumes "Hint < 8" "Hint \<le> N" "k < 8" "k < N" "N < 2 ^ 63" "\<not> bit (Bytes k) 0" "CB k"
    and "\<forall>j<k. bit (Bytes j) 0"
  shows "FindByte_PEXT Bytes 0 N Hint CB = Inr k"
proof -
  have h: "RoundDownTo Hint 8 = 0"
    using assms(1) by (simp add: RoundDownTo_8)
  have m: "bit (PEXT_mask Bytes 0) j \<longleftrightarrow> j < 8 \<and> \<not> bit (Bytes j) 0" for j
    unfolding PEXT_mask_def using bit_pext_mask[of Bytes 0 j] by simp
  have inner: "FindByte_PEXT_inner N CB 0 (PEXT_mask Bytes 0) = Some (0 + k)"
    by (rule FindByte_PEXT_inner_lowest) (use assms m in auto)
  have nr: "rotate_idx (RoundUpTo N 8) 0 0 = 0" by (simp add: rotate_idx_def)
  have "FindByte_PEXT_loop Bytes N (RoundUpTo N 8) 0 CB 0 = k"
    using assms(4) by (subst FindByte_PEXT_loop_step) (simp_all add: nr inner)
  then show ?thesis
    using assms(2) by (simp add: FindByte_PEXT_def h Let_def)
qed

lemma SizeToSizeClass_1: "SizeToSizeClass SCD 1 = Inr (0, SCD ! 0)"
  by (simp add: SizeToSizeClass_def kNumSizeClasses_def SCArray_def)

lemma store_state_fields [simp]:
  shows "Config (store_state st S i v) = Config st"
    "SCDescr (store_state st S i v) = SCDescr st"
    "InitAllOnce (store_state st S i v) = InitAllOnce st"
    "SuperPageMetadata (store_state st S i v) = SuperPageMetadata st"
    "SmallShadow (store_state st S i v) = SmallShadow st"
    "LargeShadow (store_state st S i v) = LargeShadow st"
    "NumSuperPages (store_state st S i v) = NumSuperPages st"
    "DataOnlyScopeLevel (store_state st S i v) = DataOnlyScopeLevel st"
    "BytesInQuarantine (store_state st S i v) = BytesInQuarantine st"
    "LastQurantineSize (store_state st S i v) = LastQurantineSize st"
    "NumScans (store_state st S i v) = NumScans st"
    "ScanPos (store_state st S i v) = ScanPos st"
    "TLS_Rand (store_state st S i v) = TLS_Rand st"
    "TLS_LocalQuarantineSize (store_state st S i v) = TLS_LocalQuarantineSize st"
    "TLS_PerSC (store_state st S i v) = TLS_PerSC st"
    "pthread_self_val (store_state st S i v) = pthread_self_val st"
  by (cases S; simp add: store_state_def)+

lemma one_used_chunk_fields:
  shows "Config (one_used_chunk cfg tag) = cfg"
    "SCDescr (one_used_chunk cfg tag) = the InitAll"
    "InitAllOnce (one_used_chunk cfg tag)"
    "SuperPageMetadata (one_used_chunk cfg tag) = (\<lambda>_. 0)"
    "NumSuperPages (one_used_chunk cfg tag) = (\<lambda>R. if R = 0 then 1 else 0)"
    "DataOnlyScopeLevel (one_used_chunk cfg tag) = 0"
    "TLS_PerSC (one_used_chunk cfg tag) = (\<lambda>SC. if SC = 0 then (kAllocatorSpace, 1) else (0, 0))"
    "TLS_Rand (one_used_chunk cfg tag) = 1"
    "TLS_LocalQuarantineSize (one_used_chunk cfg tag) = 0"
    "SmallShadow (one_used_chunk cfg tag) = (\<lambda>i. if i = 0 then tag else 0)"
    "Mem (one_used_chunk cfg tag) =
       (\<lambda>a. if a = kAllocatorSpace + kSuperPageSize - 30848 then USED_MIXED else 0)"
  by (simp_all add: one_used_chunk_def zero_Allocator_def)

lemma TryAllocate_found:
  assumes "FindByte_PEXT (load_state st (State This (NumChunks SCD) (RangeNum SCD))) AVAILABLE
             (NumChunks SCD) Hint
             (\<lambda>Pos. load_state st (State This (NumChunks SCD) (RangeNum SCD)) Pos = AVAILABLE) = Inr Pos"
    and "Pos < NumChunks SCD" "Pos \<noteq> size_t_minus_1"
  shows "TryAllocate st This DataOnly SCD Hint =
           (let st' = store_state st (State This (NumChunks SCD) (RangeNum SCD)) Pos
                        (if DataOnly then USED_DATA else USED_MIXED)
            in case GetMemoryTag st' (AddressOfChunk This Pos SCD) of
                 Inl f \<Rightarrow> Inl f
               | Inr Tag \<Rightarrow>
                   Inr (ApplyAddressTag (Config st') (AddressOfChunk This Pos SCD) Tag, Pos + 1, st'))"
  using assms(2,3) unfolding TryAllocate_def Let_def assms(1) by simp

lemma TryAllocate_one_used_chunk:
  "TryAllocate (one_used_chunk plain_config 0) kAllocatorSpace False (the InitAll ! 0) 1 =
     Inr (kAllocatorSpace + 16, 2,
          store_state (one_used_chunk plain_config 0)
            (InSuperPage (kAllocatorSpace + kSuperPageSize - 30848)) 1 USED_MIXED)"
proof -
  let ?st = "one_used_chunk plain_config 0"
  let ?S = "InSuperPage (kAllocatorSpace + kSuperPageSize - 30848)"
  let ?SCD = "the InitAll ! 0"
  have S: "State kAllocatorSpace (NumChunks ?SCD) (RangeNum ?SCD) = ?S"
    by (simp add: SCDescr_0 State_class0)
  have N: "NumChunks ?SCD = 30840" by (simp add: SCDescr_0)
  have ld: "load_state ?st ?S = (\<lambda>i. if i = 0 then USED_MIXED else 0)"
    by (rule ext) (simp add: load_state_def one_used_chunk_def zero_Allocator_def)
  have f: "FindByte_PEXT (load_state ?st ?S) 0 30840 1 (\<lambda>Pos. load_state ?st ?S Pos = AVAILABLE) = Inr 1"
    by (rule FindByte_PEXT_lowest) (simp_all add: ld USED_MIXED_def AVAILABLE_def)
  have f': "FindByte_PEXT (load_state ?st (State kAllocatorSpace (NumChunks ?SCD) (RangeNum ?SCD))) AVAILABLE
             (NumChunks ?SCD) 1
             (\<lambda>Pos. load_state ?st (State kAllocatorSpace (NumChunks ?SCD) (RangeNum ?SCD)) Pos = AVAILABLE)
            = Inr 1"
    using f by (simp add: SCDescr_0 State_class0 AVAILABLE_def)
  have g: "GetMemoryTag (store_state ?st S i v) a = Inr 0" for a S i v
    unfolding GetMemoryTag_def by (simp add: one_used_chunk_fields plain_config_def)
  have ap: "ApplyAddressTag plain_config a t = a" for a t
    by (simp add: ApplyAddressTag_def plain_config_def)
  have ad: "AddressOfChunk kAllocatorSpace i ?SCD = kAllocatorSpace + i * 16" for i
    by (simp add: AddressOfChunk_def ChunkSize_def SCDescr_0)
  have "TryAllocate ?st kAllocatorSpace False ?SCD 1 =
          (let st' = store_state ?st (State kAllocatorSpace (NumChunks ?SCD) (RangeNum ?SCD)) 1
                        (if False then USED_DATA else USED_MIXED)
            in case GetMemoryTag st' (AddressOfChunk kAllocatorSpace 1 ?SCD) of
                 Inl f \<Rightarrow> Inl f
               | Inr Tag \<Rightarrow>
                   Inr (ApplyAddressTag (Config st') (AddressOfChunk kAllocatorSpace 1 ?SCD) Tag, 1 + 1, st'))"
    by (rule TryAllocate_found[OF f']) (simp_all add: N size_t_minus_1_def)
  then show ?thesis
    unfolding Let_def S by (simp add: g ap ad one_used_chunk_fields)
qed

lemma Allocate_one_used_chunk:
  "Allocate (one_used_chunk plain_config 0) 1 =
     Some (Inr (kAllocatorSpace + 16,
       (store_state (one_used_chunk plain_config 0)
            (InSuperPage (kAllocatorSpace + kSuperPageSize - 30848)) 1 USED_MIXED)
         \<lparr>TLS_PerSC := (TLS_PerSC (one_used_chunk plain_config 0))(0 := (kAllocatorSpace, 2))\<rparr>))"
proof -
  let ?st = "one_used_chunk plain_config 0"
  have a: "SCDescr ?st = the InitAll" "TLS_PerSC ?st 0 = (kAllocatorSpace, 1)"
    "DataOnlyScopeLevel ?st = 0"
    by (simp_all add: one_used_chunk_def zero_Allocator_def)
  have ne: "kAllocatorSpace \<noteq> 0" "kAllocatorSpace + 16 \<noteq> 0" by (simp_all add: kAllocatorSpace_def)
  show ?thesis
    unfolding Allocate_def
    by (simp add: a SizeToSizeClass_1 TryAllocate_one_used_chunk ne del: One_nat_def)
qed

text \<open>
  C6. The second half of the claim, that \<open>posix_memalign\<close> stores a pointer aligned to
  \<open>alignment\<close> whenever it returns 0 with \<open>alignment \<le> 4096\<close>, does not hold of the
  code: for an alignment above 16 the size is rounded down, not up, and nothing aligns
  the chunk. In a process whose current super page of the 16-byte class has its first
  chunk in use, \<open>posix_memalign(&p, 32, 1)\<close> (a call that \<open>MemalignTest\<close> makes) returns 0
  and stores the address of the second chunk, which is 16 past a multiple of 32.
\<close>

theorem posix_memalign_misaligned:
  "\<exists>st'. posix_memalign (one_used_chunk plain_config 0) 32 1 =
           Some (Inr (0, SmallPointer (kAllocatorSpace + 16), st')) \<and>
         (kAllocatorSpace + 16) mod 32 = 16"
proof -
  have r: "RoundDownTo 1 32 = 0" using RoundDownTo_pow2[of 1 5] by simp
  have k: "\<not> 1 > kMaxSizeClass" by (simp add: kMaxSizeClass_def SCArray_def kNumSizeClasses_def)
  show ?thesis
    unfolding posix_memalign_def malloc_def r
    using k by (simp add: Allocate_one_used_chunk kAllocatorSpace_def del: One_nat_def)
qed


section \<open>Super pages, chunks and their state bytes\<close>

lemma InitAll_wf_SCD: "\<forall>d \<in> set (the InitAll). wf_SCD d"
  unfolding InitAll_eq
  by (simp add: wf_SCD_def ChunkSize_def SizeOfInlineMeta_def kStateArrayAlignment_def RoundUpTo_32
      kSuperPageSize_def kSizeAlignmentForSecondRange_def)

lemma kAllocatorSpace_eq: "kAllocatorSpace = 201326592 * kSuperPageSize"
  by (simp add: kAllocatorSpace_def kSuperPageSize_def)

lemma SPA_eq: "SPA g = (201326592 + g) * kSuperPageSize"
  by (simp add: SPA_def kAllocatorSpace_eq algebra_simps)

lemma SPA_lt: "g < 2 ^ 21 \<Longrightarrow> SPA g + kSuperPageSize \<le> kAllocatorSpace + kAllocatorSize"
  by (simp add: SPA_def kAllocatorSpace_def kAllocatorSize_def kSuperPageSize_def)

lemma SPA_lt64: "g < 2 ^ 21 \<Longrightarrow> x < kSuperPageSize \<Longrightarrow> SPA g + x < 2 ^ 64"
  by (simp add: SPA_def kAllocatorSpace_def kAllocatorSize_def kSuperPageSize_def)

lemma SPA_div: "x < kSuperPageSize \<Longrightarrow> (SPA g + x) div kSuperPageSize = 201326592 + g"
  by (simp add: SPA_eq)

lemma SPA_mod: "x < kSuperPageSize \<Longrightarrow> (SPA g + x) mod kSuperPageSize = x"
  by (simp add: SPA_eq)

lemma RoundDownTo_SPA:
  assumes "g < 2 ^ 21" "x < kSuperPageSize"
  shows "RoundDownTo (SPA g + x) kSuperPageSize = SPA g"
proof -
  have "RoundDownTo (SPA g + x) (2 ^ 19) = ((SPA g + x) div 2 ^ 19) * 2 ^ 19"
    by (rule RoundDownTo_pow2) (rule SPA_lt64[OF assms])
  then show ?thesis
    using SPA_div[OF assms(2), of g] by (simp add: kSuperPageSize_def SPA_eq)
qed

lemma FixedShadow_Index_SPA:
  assumes "g < 2 ^ 21" "x < kSuperPageSize"
  shows "FixedShadow_Index kAllocatorSpace kSuperPageSize (SPA g + x) = g"
proof -
  have "g * kSuperPageSize + x < 2 ^ 64"
    using SPA_lt64[OF assms] by (simp add: SPA_def)
  moreover have "SPA g + x + 2 ^ 64 - kAllocatorSpace = (g * kSuperPageSize + x) + 2 ^ 64"
    by (simp add: SPA_def)
  ultimately have "(SPA g + x + 2 ^ 64 - kAllocatorSpace) mod 2 ^ 64 = g * kSuperPageSize + x"
    by (simp only: mod_add_self2 mod_less)
  then show ?thesis using assms(2) by (simp add: FixedShadow_Index_def)
qed

lemma IsMine_SPA:
  assumes "g < 2 ^ 21" "x < kSuperPageSize"
  shows "FixedShadow_IsMine kAllocatorSpace kAllocatorSize (SPA g + x)"
  using SPA_lt[OF assms(1)] assms(2) by (simp add: FixedShadow_IsMine_def SPA_def)

lemma region_SPA:
  assumes "kAllocatorSpace \<le> a" "a < kAllocatorSpace + kAllocatorSize"
  shows "\<exists>g x. g < 2 ^ 21 \<and> x < kSuperPageSize \<and> a = SPA g + x"
proof -
  let ?o = "a - kAllocatorSpace"
  have "?o < 2 ^ 21 * kSuperPageSize" using assms by (simp add: kAllocatorSize_def kSuperPageSize_def)
  then have "?o div kSuperPageSize < 2 ^ 21"
    by (simp add: less_mult_imp_div_less)
  moreover have "?o mod kSuperPageSize < kSuperPageSize" by (simp add: kSuperPageSize_def)
  moreover have "a = SPA (?o div kSuperPageSize) + ?o mod kSuperPageSize"
    using assms(1) by (simp add: SPA_def)
  ultimately show ?thesis by blast
qed

lemma GetSuperPage_SPA:
  "GetSuperPage R i = Inr SP \<Longrightarrow>
   SP = SPA ((if R = 0 then 0 else 2 ^ 20) + i) \<and> (if R = 0 then 0 else 2 ^ 20) + i < 2 ^ 21"
  by (auto simp: GetSuperPage_def kFirstSuperPage_def SPA_def Let_def kAllocatorSpace_def
      kAllocatorSize_def kSuperPageSize_def split: if_splits)

lemma kMeta_Index_eq: "kMeta_Index R i = (if R = 0 then 0 else 2 ^ 20) + i"
  by (simp add: kMeta_Index_def kPrimaryMetaSize_def kAllocatorSize_def kSuperPageSize_def)

lemma SecondRangeMeta_Index_SPA:
  assumes "2 ^ 20 \<le> g" "g < 2 ^ 21"
  shows "SecondRangeMeta_Index (SPA g) = (g - 2 ^ 20) * 512"
proof -
  have "SPA g = kFirstSuperPage 1 + (g - 2 ^ 20) * kSuperPageSize"
    using assms by (simp add: SPA_def kFirstSuperPage_def kAllocatorSize_def kSuperPageSize_def
        algebra_simps)
  moreover have "kFirstSuperPage 1 + (g - 2 ^ 20) * kSuperPageSize < 2 ^ 64"
    using assms by (simp add: kFirstSuperPage_def kAllocatorSpace_def kAllocatorSize_def kSuperPageSize_def)
  ultimately have "(SPA g + 2 ^ 64 - kFirstSuperPage 1) mod 2 ^ 64 = (g - 2 ^ 20) * kSuperPageSize"
    by simp
  then show ?thesis
    by (simp add: SecondRangeMeta_Index_def FixedShadow_Index_def kSuperPageSize_def
        kSizeAlignmentForSecondRange_def)
qed



lemma unat_word_of_nat_64: "a < 2 ^ 64 \<Longrightarrow> unat (word_of_nat a :: u64) = a"
  by (simp add: unsigned_of_nat take_bit_nat_eq_self_iff)

lemma region_drop_bit:
  assumes "kAllocatorSpace \<le> a" "a < kAllocatorSpace + kAllocatorSize"
  shows "drop_bit 40 (word_of_nat a :: u64) = 96"
proof -
  have lt: "a < 2 ^ 64" using assms(2) by (simp add: kAllocatorSpace_def kAllocatorSize_def)
  have d: "a div 2 ^ 40 = 96"
    using assms by (simp add: kAllocatorSpace_def kAllocatorSize_def) 
  have "unat (drop_bit 40 (word_of_nat a :: u64)) = drop_bit 40 (unat (word_of_nat a :: u64))"
    by (rule unat_drop_bit_eq)
  also have "unat (word_of_nat a :: u64) = a"
    using lt by (rule unat_word_of_nat_64)
  finally have "unat (drop_bit 40 (word_of_nat a :: u64)) = 96"
    using d by (simp add: drop_bit_eq_div)
  then have "word_of_nat (unat (drop_bit 40 (word_of_nat a :: u64))) = (word_of_nat 96 :: u64)"
    by simp
  then show ?thesis by simp
qed

lemma bit_96: "k < 4 \<Longrightarrow> \<not> bit (96 :: u64) k"
proof -
  assume "k < 4"
  then have "k = 0 \<or> k = 1 \<or> k = 2 \<or> k = 3" by auto
  then show ?thesis by (auto simp: bit_numeral_Bit0_Suc_iff numeral_3_eq_3 bit_Suc)
qed

lemma region_tag_field_clear:
  assumes "kAllocatorSpace \<le> a" "a < kAllocatorSpace + kAllocatorSize"
  shows "(word_of_nat a :: u64) AND NOT (push_bit 40 (mask 4)) = word_of_nat a"
proof (rule bit_word_eqI)
  fix n assume n: "n < LENGTH(64)"
  have "\<not> bit (word_of_nat a :: u64) n" if "40 \<le> n" "n - 40 < 4"
  proof -
    have "bit (word_of_nat a :: u64) n = bit (drop_bit 40 (word_of_nat a :: u64)) (n - 40)"
      using that by (simp add: bit_drop_bit_eq)
    then show ?thesis using bit_96[OF that(2)] region_drop_bit[OF assms] by simp
  qed
  then show "bit ((word_of_nat a :: u64) AND NOT (push_bit 40 (mask 4))) n = bit (word_of_nat a :: u64) n"
    using n by (auto simp: bit_simps)
qed

lemma ApplyAddressTag_shape:
  "ApplyAddressTag cfg a t =
     (if \<not> UseAliases cfg then a
      else unat (((word_of_nat a :: u64) AND NOT (push_bit 40 (mask 4))) OR push_bit 40 ((ucast t :: u64) AND mask 4)))"
  unfolding ApplyAddressTag_def Let_def mask_u64_15 by simp

lemma untag_tagged:
  assumes "kAllocatorSpace \<le> a" "a < kAllocatorSpace + kAllocatorSize"
  shows "ApplyAddressTag cfg (ApplyAddressTag cfg a t) 0 = a"
proof (cases "UseAliases cfg")
  case False
  then show ?thesis by (simp add: ApplyAddressTag_shape)
next
  case True
  let ?w = "word_of_nat a :: u64"
  let ?M = "push_bit 40 (mask 4) :: u64"
  let ?T = "push_bit 40 ((ucast t :: u64) AND mask 4)"
  have lt: "a < 2 ^ 64" using assms(2) by (simp add: kAllocatorSpace_def kAllocatorSize_def)
  have "(((?w AND NOT ?M) OR ?T) AND NOT ?M) OR push_bit 40 ((ucast (0 :: u8) :: u64) AND mask 4) = ?w AND NOT ?M"
    by (rule bit_word_eqI) (auto simp: bit_simps)
  also have "\<dots> = ?w" by (rule region_tag_field_clear[OF assms])
  finally have "unat ((((?w AND NOT ?M) OR ?T) AND NOT ?M) OR push_bit 40 ((ucast (0 :: u8) :: u64) AND mask 4)) = a"
    using lt by (simp only: unat_word_of_nat_64)
  then show ?thesis
    using True unfolding ApplyAddressTag_shape[of cfg a t] ApplyAddressTag_shape[of cfg _ 0]
    by (simp only: if_False if_True not_True_eq_False of_nat_unat ucast_id)
qed

lemma untag_id:
  assumes "kAllocatorSpace \<le> a" "a < kAllocatorSpace + kAllocatorSize"
  shows "ApplyAddressTag cfg a 0 = a"
proof (cases "UseAliases cfg")
  case False
  then show ?thesis by (simp add: ApplyAddressTag_shape)
next
  case True
  let ?w = "word_of_nat a :: u64"
  let ?M = "push_bit 40 (mask 4) :: u64"
  have lt: "a < 2 ^ 64" using assms(2) by (simp add: kAllocatorSpace_def kAllocatorSize_def)
  have "(?w AND NOT ?M) OR push_bit 40 ((ucast (0 :: u8) :: u64) AND mask 4) = ?w AND NOT ?M"
    by simp
  also have "\<dots> = ?w" by (rule region_tag_field_clear[OF assms])
  finally have "unat ((?w AND NOT ?M) OR push_bit 40 ((ucast (0 :: u8) :: u64) AND mask 4)) = a"
    using lt by (simp only: unat_word_of_nat_64)
  then show ?thesis
    using True unfolding ApplyAddressTag_shape[of cfg a 0] by (simp only: if_False not_True_eq_False)
qed

lemma tagged_nonzero:
  assumes "kAllocatorSpace \<le> a" "a < kAllocatorSpace + kAllocatorSize"
  shows "ApplyAddressTag cfg a t \<noteq> 0"
proof
  assume z: "ApplyAddressTag cfg a t = 0"
  have "ApplyAddressTag cfg 0 0 = 0" by (simp add: ApplyAddressTag_shape)
  with untag_tagged[OF assms, of cfg t] z have "a = 0" by simp
  with assms(1) show False by (simp add: kAllocatorSpace_def)
qed


section \<open>The steps of an allocation\<close>

lemma FindByte_PEXT_result:
  assumes "FindByte_PEXT Bytes V N H CB = Inr r"
  shows "r = size_t_minus_1 \<or> (r < N \<and> CB r)"
proof -
  let ?NR = "RoundUpTo N 8" and ?H = "RoundDownTo H 8"
  from assms have r: "r = FindByte_PEXT_loop Bytes N ?NR ?H CB 0"
    by (auto simp: FindByte_PEXT_def Let_def split: if_splits)
  from FindByte_PEXT_loop_spec[of 0 N CB ?NR ?H Bytes]
  show ?thesis
  proof
    assume "\<exists>j. 0 + 8 * j < N \<and>
        FindByte_PEXT_inner N CB (rotate_idx ?NR ?H (0 + 8 * j)) (PEXT_mask Bytes (rotate_idx ?NR ?H (0 + 8 * j)))
          = Some (FindByte_PEXT_loop Bytes N ?NR ?H CB 0)"
    then obtain j where "FindByte_PEXT_inner N CB (rotate_idx ?NR ?H (0 + 8 * j))
         (PEXT_mask Bytes (rotate_idx ?NR ?H (0 + 8 * j))) = Some r"
      unfolding r by blast
    from FindByte_PEXT_inner_Some[OF this] show ?thesis by blast
  next
    assume "FindByte_PEXT_loop Bytes N ?NR ?H CB 0 = size_t_minus_1 \<and>
       (\<forall>j. 0 + 8 * j < N \<longrightarrow>
          FindByte_PEXT_inner N CB (rotate_idx ?NR ?H (0 + 8 * j)) (PEXT_mask Bytes (rotate_idx ?NR ?H (0 + 8 * j)))
            = None)"
    then show ?thesis using r by simp
  qed
qed

lemma TryAllocate_cases:
  assumes "TryAllocate st This D SCD Hint = Inr (Res, Hint', st')"
  shows "(Res = 0 \<and> Hint' = Hint \<and> st' = st) \<or>
         (\<exists>Pos Tag. Pos < NumChunks SCD \<and>
            load_state st (State This (NumChunks SCD) (RangeNum SCD)) Pos = AVAILABLE \<and>
            st' = store_state st (State This (NumChunks SCD) (RangeNum SCD)) Pos
                    (if D then USED_DATA else USED_MIXED) \<and>
            Res = ApplyAddressTag (Config st) (AddressOfChunk This Pos SCD) Tag \<and>
            Hint' = Pos + 1)"
proof -
  let ?S = "State This (NumChunks SCD) (RangeNum SCD)"
  obtain r where f: "FindByte_PEXT (load_state st ?S) AVAILABLE (NumChunks SCD) Hint
                       (\<lambda>Pos. load_state st ?S Pos = AVAILABLE) = Inr r"
    using assms by (cases "FindByte_PEXT (load_state st ?S) AVAILABLE (NumChunks SCD) Hint
                       (\<lambda>Pos. load_state st ?S Pos = AVAILABLE)")
      (auto simp: TryAllocate_def Let_def)
  from FindByte_PEXT_result[OF f]
  have r: "r = size_t_minus_1 \<or> (r < NumChunks SCD \<and> load_state st ?S r = AVAILABLE)" .
  show ?thesis
  proof (cases "r = size_t_minus_1")
    case True
    then show ?thesis using assms f by (simp add: TryAllocate_def Let_def)
  next
    case False
    with r have lt: "r < NumChunks SCD" and av: "load_state st ?S r = AVAILABLE" by auto
    from assms f False lt show ?thesis
      by (auto simp: TryAllocate_def Let_def av split: sum.splits)
  qed
qed

lemma SizeToSizeClass_loop_result:
  "SizeToSizeClass_loop SCD Size Idx = (i, d) \<Longrightarrow> i < kNumSizeClasses \<and> d = SCD ! i"
proof (induction SCD Size Idx rule: SizeToSizeClass_loop.induct)
  case (1 SCD Size Idx)
  show ?case
  proof (cases "Idx < kNumSizeClasses")
    case False
    with "1.prems" show ?thesis
      by (subst (asm) SizeToSizeClass_loop.simps) (auto simp: kNumSizeClasses_def SCArray_def)
  next
    case True
    show ?thesis
    proof (cases "Size \<le> ChunkSize (SCD ! Idx)")
      case t: True
      with True "1.prems" show ?thesis
        by (subst (asm) SizeToSizeClass_loop.simps) auto
    next
      case f: False
      with True "1.prems" have "SizeToSizeClass_loop SCD Size (Idx + 1) = (i, d)"
        by (subst (asm) SizeToSizeClass_loop.simps) auto
      from "1.IH"[OF True f this] show ?thesis .
    qed
  qed
qed

lemma SizeToSizeClass_result:
  "SizeToSizeClass SCD Size = Inr (i, d) \<Longrightarrow> i < kNumSizeClasses \<and> d = SCD ! i"
  by (auto simp: SizeToSizeClass_def Let_def dest: SizeToSizeClass_loop_result split: if_splits)

lemma InitAll_Some: "InitAll = Some (the InitAll)"
  by (simp add: InitAll_eq)

lemma kNumSizeClasses_67: "kNumSizeClasses = 67"
  by (simp add: kNumSizeClasses_def SCArray_def)

text \<open>The class of a mapped super page.\<close>

lemma started_class:
  assumes "started st" "is_mapped st g"
  defines "d \<equiv> SCDescr st ! unat (SuperPageMetadata st g)"
  shows "g < 2 ^ 21" "wf_SCD d" "d \<in> set (SCDescr st)" "RangeNum d = (if g < 2 ^ 20 then 0 else 1)"
    "GetSCD st (SPA g) = Inr d" "unat (SuperPageMetadata st g) < kNumSizeClasses"
proof -
  from assms(1) have tab: "InitAll = Some (SCDescr st)" and n0: "NumSuperPages st 0 \<le> 2 ^ 20"
    and n1: "NumSuperPages st 1 \<le> 2 ^ 20" by (simp_all add: started_def)
  from assms(1,2) have c: "unat (SuperPageMetadata st g) < kNumSizeClasses"
    and r: "RangeNum d = (if g < 2 ^ 20 then 0 else 1)"
    unfolding started_def d_def by blast+
  show g: "g < 2 ^ 21" using assms(2) n0 n1 by (auto simp: is_mapped_def)
  have len: "length (SCDescr st) = 67"
    using tab length_the_InitAll by (metis option.sel)
  show mem: "d \<in> set (SCDescr st)"
    unfolding d_def using c len by (simp add: kNumSizeClasses_67)
  have "SCDescr st = the InitAll" using tab by (metis option.sel)
  then show "wf_SCD d" using mem InitAll_wf_SCD by simp
  show "RangeNum d = (if g < 2 ^ 20 then 0 else 1)" by (rule r)
  show "unat (SuperPageMetadata st g) < kNumSizeClasses" by (rule c)
  have "FixedShadow_IsMine kAllocatorSpace kAllocatorSize (SPA g + 0)"
    by (rule IsMine_SPA[OF g]) (simp add: kSuperPageSize_def)
  moreover have "FixedShadow_Index kAllocatorSpace kSuperPageSize (SPA g + 0) = g"
    by (rule FixedShadow_Index_SPA[OF g]) (simp add: kSuperPageSize_def)
  ultimately show "GetSCD st (SPA g) = Inr d"
    using c len by (simp add: GetSCD_def GetSizeClass_def d_def kNumSizeClasses_67)
qed

lemma wf_SCD_chunk_bound:
  assumes "wf_SCD d" "Pos < NumChunks d"
  shows "Pos * ChunkSize d + ChunkSize d \<le> kSuperPageSize" "0 < ChunkSize d"
proof -
  have "Suc Pos * ChunkSize d \<le> NumChunks d * ChunkSize d"
    using assms(2) by (intro mult_le_mono1) simp
  moreover have "NumChunks d * ChunkSize d \<le> kSuperPageSize"
    using assms(1) by (simp add: wf_SCD_def)
  ultimately show "Pos * ChunkSize d + ChunkSize d \<le> kSuperPageSize" by simp
  show "0 < ChunkSize d" using assms(1) by (simp add: wf_SCD_def ChunkSize_def)
qed

lemma ComputeStatePtr_chunk:
  assumes tab: "InitAll = Some T" and d: "d \<in> set T" and wf: "wf_SCD d"
    and pos: "Pos < NumChunks d"
  shows "ComputeStatePtr (SPA g + Pos * ChunkSize d) d = Inr Pos"
proof -
  from wf_SCD_chunk_bound[OF wf pos]
  have b: "Pos * ChunkSize d < kSuperPageSize" and cs: "0 < ChunkSize d" by simp_all
  have off: "(SPA g + Pos * ChunkSize d) mod kSuperPageSize = Pos * ChunkSize d"
    by (rule SPA_mod[OF b])
  have "DivBySizeViaMul (Pos * ChunkSize d) (ChunkSizeMulDiv d) = Pos * ChunkSize d div ChunkSize d"
    by (rule InitAll_recip(2)[OF tab d]) (use b in simp)
  also have "\<dots> = Pos" using cs by simp
  finally show ?thesis using pos by (simp add: ComputeStatePtr_def off Let_def)
qed

lemma ComputeStatePtr_Inr:
  assumes "ComputeStatePtr a d = Inr Idx"
  shows "Idx < NumChunks d" "Idx * ChunkSize d = a mod kSuperPageSize"
  using assms by (auto simp: ComputeStatePtr_def Let_def split: if_splits)

lemma load_store_state:
  "load_state (store_state st S i v) S' j =
     (if shift_ptr S i = shift_ptr S' j then v else load_state st S' j)"
  by (cases S; cases S'; simp add: load_state_def store_state_def shift_ptr_def)

lemma started_SCD_of:
  assumes "started st" "is_mapped st g"
  shows "g < 2 ^ 21" "wf_SCD (SCD_of st g)" "SCD_of st g \<in> set (SCDescr st)"
    "RangeNum (SCD_of st g) = (if g < 2 ^ 20 then 0 else 1)"
    "GetSCD st (SPA g) = Inr (SCD_of st g)" "unat (SuperPageMetadata st g) < kNumSizeClasses"
  using started_class[OF assms] unfolding SCD_of_def by blast+

lemma State_of_shift:
  assumes "started st" "is_mapped st g"
  shows "shift_ptr (State_of st g) Pos =
           (if g < 2 ^ 20
            then InSuperPage (SPA g + (kSuperPageSize - SizeOfInlineMeta (NumChunks (SCD_of st g)) 0 + Pos))
            else InSecondRangeMeta ((g - 2 ^ 20) * 512 + Pos))"
proof -
  note c = started_SCD_of[OF assms]
  have m: "SizeOfInlineMeta (NumChunks (SCD_of st g)) 0 \<le> kSuperPageSize"
    using c(2) by (simp add: wf_SCD_def)
  show ?thesis
  proof (cases "g < 2 ^ 20")
    case True
    then show ?thesis using c(4) m
      by (simp add: State_of_def State_def shift_ptr_def SPA_def)
  next
    case False
    then have "2 ^ 20 \<le> g" by simp
    from SecondRangeMeta_Index_SPA[OF this c(1)] False c(4) show ?thesis
      by (simp add: State_of_def State_def shift_ptr_def)
  qed
qed

lemma state_byte_inj:
  assumes st: "started st" and g: "is_mapped st g" and g': "is_mapped st g'"
    and pos: "Pos < NumChunks (SCD_of st g)" and pos': "Pos' < NumChunks (SCD_of st g')"
    and eq: "shift_ptr (State_of st g) Pos = shift_ptr (State_of st g') Pos'"
  shows "g = g' \<and> Pos = Pos'"
proof -
  note c = started_SCD_of[OF st g] and c' = started_SCD_of[OF st g']
  let ?M = "SizeOfInlineMeta (NumChunks (SCD_of st g)) 0"
  let ?M' = "SizeOfInlineMeta (NumChunks (SCD_of st g')) 0"
  from eq have e: "(if g < 2 ^ 20 then InSuperPage (SPA g + (kSuperPageSize - ?M + Pos))
                    else InSecondRangeMeta ((g - 2 ^ 20) * 512 + Pos)) =
                   (if g' < 2 ^ 20 then InSuperPage (SPA g' + (kSuperPageSize - ?M' + Pos'))
                    else InSecondRangeMeta ((g' - 2 ^ 20) * 512 + Pos'))"
    unfolding State_of_shift[OF st g] State_of_shift[OF st g'] .
  show ?thesis
  proof (cases "g < 2 ^ 20")
    case True
    with e have g'lt: "g' < 2 ^ 20" by (auto split: if_splits)
    from e True g'lt have a: "SPA g + (kSuperPageSize - ?M + Pos) = SPA g' + (kSuperPageSize - ?M' + Pos')"
      by simp
    have x: "kSuperPageSize - ?M + Pos < kSuperPageSize"
      using c(2) pos unfolding wf_SCD_def by arith
    have x': "kSuperPageSize - ?M' + Pos' < kSuperPageSize"
      using c'(2) pos' unfolding wf_SCD_def by arith
    from arg_cong[OF a, of "\<lambda>v. v div kSuperPageSize"] have gg: "g = g'"
      unfolding SPA_div[OF x] SPA_div[OF x'] by simp
    with a have "kSuperPageSize - ?M + Pos = kSuperPageSize - ?M + Pos'" by simp
    then have "Pos = Pos'" by simp
    with gg show ?thesis by simp
  next
    case False
    with e have g'ge: "\<not> g' < 2 ^ 20" by (auto split: if_splits)
    from e False g'ge have a: "(g - 2 ^ 20) * 512 + Pos = (g' - 2 ^ 20) * 512 + Pos'" by simp
    have p: "Pos < 512" using c(2,4) pos False
      by (simp add: wf_SCD_def kSuperPageSize_def kSizeAlignmentForSecondRange_def)
    have p': "Pos' < 512" using c'(2,4) pos' g'ge
      by (simp add: wf_SCD_def kSuperPageSize_def kSizeAlignmentForSecondRange_def)
    from arg_cong[OF a, of "\<lambda>v. v div 512"] p p' have "g - 2 ^ 20 = g' - 2 ^ 20" by simp
    with False g'ge have gg: "g = g'" by simp
    with a show ?thesis by simp
  qed
qed

lemma ChunkState_chunk:
  assumes st: "started st" and g: "is_mapped st g" and pos: "Pos < NumChunks (SCD_of st g)"
  shows "ChunkState st (SPA g + Pos * ChunkSize (SCD_of st g)) = Inr (load_state st (State_of st g) Pos)"
proof -
  note c = started_SCD_of[OF st g]
  from st have tab: "InitAll = Some (SCDescr st)" by (simp add: started_def)
  from wf_SCD_chunk_bound[OF c(2) pos]
  have b: "Pos * ChunkSize (SCD_of st g) < kSuperPageSize" by simp
  have rd: "RoundDownTo (SPA g + Pos * ChunkSize (SCD_of st g)) kSuperPageSize = SPA g"
    by (rule RoundDownTo_SPA[OF c(1) b])
  show ?thesis
    unfolding ChunkState_def Let_def rd c(5)
    by (simp add: ComputeStatePtr_chunk[OF tab c(3) c(2) pos] State_of_def)
qed

lemma mapped_addr_SPA:
  assumes "mapped_addr st a"
  obtains g x where "is_mapped st g" "x < kSuperPageSize" "a = SPA g + x"
proof -
  let ?o = "a - kAllocatorSpace"
  have "is_mapped st (?o div kSuperPageSize)" using assms by (simp add: mapped_addr_def)
  moreover have "?o mod kSuperPageSize < kSuperPageSize" by (simp add: kSuperPageSize_def)
  moreover have "a = SPA (?o div kSuperPageSize) + ?o mod kSuperPageSize"
    using assms by (simp add: SPA_def mapped_addr_def)
  ultimately show ?thesis using that by blast
qed

lemma mapped_addr_SPA_iff:
  assumes "x < kSuperPageSize"
  shows "mapped_addr st (SPA g + x) \<longleftrightarrow> is_mapped st g"
  using assms by (simp add: mapped_addr_def SPA_def)

lemma ChunkState_mapped:
  assumes st: "started st" and g: "is_mapped st g" and x: "x < kSuperPageSize"
  shows "ChunkState st (SPA g + x) =
           (case ComputeStatePtr (SPA g + x) (SCD_of st g) of
              Inl f \<Rightarrow> Inl f
            | Inr Idx \<Rightarrow> Inr (load_state st (State_of st g) Idx))"
proof -
  note c = started_SCD_of[OF st g]
  have rd: "RoundDownTo (SPA g + x) kSuperPageSize = SPA g"
    by (rule RoundDownTo_SPA[OF c(1) x])
  show ?thesis unfolding ChunkState_def Let_def rd c(5) State_of_def by simp
qed

lemma ChunkState_mapped_Inr:
  assumes st: "started st" and a: "mapped_addr st a" and v: "ChunkState st a = Inr v"
  obtains g Pos where "is_mapped st g" "Pos < NumChunks (SCD_of st g)"
    "a = SPA g + Pos * ChunkSize (SCD_of st g)" "v = load_state st (State_of st g) Pos"
proof -
  from mapped_addr_SPA[OF a] obtain g x where g: "is_mapped st g" and x: "x < kSuperPageSize"
    and ax: "a = SPA g + x" by blast
  from v obtain Idx where i: "ComputeStatePtr (SPA g + x) (SCD_of st g) = Inr Idx"
    and vv: "v = load_state st (State_of st g) Idx"
    unfolding ax ChunkState_mapped[OF st g x] by (auto split: sum.splits)
  from ComputeStatePtr_Inr[OF i] have "Idx < NumChunks (SCD_of st g)"
    and "Idx * ChunkSize (SCD_of st g) = x" using SPA_mod[OF x, of g] by simp_all
  with g vv ax show ?thesis using that by blast
qed

lemma for_each_invariant:
  assumes "for_each body xs s = Inr s'" and "P s"
    and "\<And>x s s'. x \<in> set xs \<Longrightarrow> P s \<Longrightarrow> body x s = Inr s' \<Longrightarrow> P s'"
  shows "P s'"
  using assms
proof (induction xs arbitrary: s)
  case Nil
  then show ?case by simp
next
  case (Cons x xs)
  from Cons.prems(1) obtain s1 where b: "body x s = Inr s1" and r: "for_each body xs s1 = Inr s'"
    by (auto split: sum.splits)
  have p1: "P s1" using Cons.prems(3)[OF _ Cons.prems(2) b] by simp
  show ?case
  proof (rule Cons.IH[OF r p1])
    fix y t t' assume "y \<in> set xs" "P t" "body y t = Inr t'"
    then show "P t'" using Cons.prems(3)[of y t t'] by simp
  qed
qed

lemma is_mapped_mono:
  assumes "NumSuperPages st 0 \<le> NumSuperPages st' 0" "NumSuperPages st 1 \<le> NumSuperPages st' 1"
    and "is_mapped st g"
  shows "is_mapped st' g"
  using assms by (auto simp: is_mapped_def)

lemma grows_refl: "grows st st"
  by (simp add: grows_def)

lemma grows_mapped: "grows st st' \<Longrightarrow> is_mapped st g \<Longrightarrow> is_mapped st' g"
  by (auto simp: grows_def intro: is_mapped_mono)

lemma grows_trans:
  assumes "grows a b" "grows b c"
  shows "grows a c"
proof -
  have m: "is_mapped a g \<Longrightarrow> is_mapped b g" for g using assms(1) by (rule grows_mapped)
  show ?thesis
    using assms m unfolding grows_def
    by (auto intro: order_trans)
qed

lemma load_state_shift: "load_state st S i = load_state st (shift_ptr S i) 0"
  by (cases S) (simp_all add: load_state_def shift_ptr_def)

lemma grows_SCD_of:
  assumes "started st" "grows st st'" "is_mapped st g"
  shows "SCD_of st' g = SCD_of st g"
  using assms by (simp add: SCD_of_def grows_def started_def)

lemma grows_State_of:
  assumes "started st" "grows st st'" "is_mapped st g"
  shows "State_of st' g = State_of st g"
  using grows_SCD_of[OF assms] by (simp add: State_of_def)

lemma grows_load_state:
  assumes st: "started st" and gr: "grows st st'" and g: "is_mapped st g"
    and pos: "Pos < NumChunks (SCD_of st g)"
  shows "load_state st' (State_of st' g) Pos = load_state st (State_of st g) Pos"
proof -
  note c = started_SCD_of[OF st g]
  have x: "kSuperPageSize - SizeOfInlineMeta (NumChunks (SCD_of st g)) 0 + Pos < kSuperPageSize"
    using c(2) pos unfolding wf_SCD_def by arith
  have "load_state st' (State_of st g) Pos = load_state st (State_of st g) Pos"
    unfolding load_state_shift[of _ "State_of st g" Pos] State_of_shift[OF st g]
    using gr g x by (auto simp: load_state_def grows_def)
  then show ?thesis by (simp add: grows_State_of[OF st gr g])
qed

lemma grows_GetSCD:
  assumes st: "started st" and gr: "grows st st'" and g: "is_mapped st g"
  shows "GetSCD st' (SPA g) = Inr (SCD_of st g)"
proof -
  note c = started_SCD_of[OF st g]
  have i: "FixedShadow_Index kAllocatorSpace kSuperPageSize (SPA g + 0) = g"
    by (rule FixedShadow_Index_SPA[OF c(1)]) (simp add: kSuperPageSize_def)
  have m: "SuperPageMetadata st' g = SuperPageMetadata st g" "SCDescr st' = SCDescr st"
    using gr g st by (auto simp: grows_def started_def)
  from c(5) i m show ?thesis
    by (auto simp: GetSCD_def GetSizeClass_def SCD_of_def split: if_splits sum.splits)
qed

lemma grows_ChunkState:
  assumes st: "started st" and gr: "grows st st'" and a: "mapped_addr st a"
  shows "ChunkState st' a = ChunkState st a"
proof -
  from mapped_addr_SPA[OF a] obtain g x where g: "is_mapped st g" and x: "x < kSuperPageSize"
    and ax: "a = SPA g + x" by blast
  note c = started_SCD_of[OF st g]
  have rd: "RoundDownTo (SPA g + x) kSuperPageSize = SPA g"
    by (rule RoundDownTo_SPA[OF c(1) x])
  have l: "load_state st' (State_of st g) Idx = load_state st (State_of st g) Idx"
    if "Idx < NumChunks (SCD_of st g)" for Idx
    using grows_load_state[OF st gr g that] grows_State_of[OF st gr g] by simp
  have "ChunkState st' (SPA g + x) =
           (case ComputeStatePtr (SPA g + x) (SCD_of st g) of
              Inl f \<Rightarrow> Inl f
            | Inr Idx \<Rightarrow> Inr (load_state st' (State_of st g) Idx))"
    unfolding ChunkState_def Let_def rd grows_GetSCD[OF st gr g] State_of_def by simp
  also have "\<dots> = ChunkState st (SPA g + x)"
    unfolding ChunkState_mapped[OF st g x]
    by (auto split: sum.splits dest: ComputeStatePtr_Inr(1) simp: l)
  finally show ?thesis by (simp add: ax)
qed

lemma tags_frame_refl: "tags_frame st st"
  by (simp add: tags_frame_def)

lemma tags_frame_trans: "tags_frame a b \<Longrightarrow> tags_frame b c \<Longrightarrow> tags_frame a c"
  by (simp add: tags_frame_def)

lemma SetMemoryTag_frame:
  "SetMemoryTag st Addr Size Tag = Inr st' \<Longrightarrow> tags_frame st st' \<and> TLS_Rand st' = TLS_Rand st"
  by (auto simp: SetMemoryTag_def tags_frame_def split: if_splits sum.splits)

lemma SeedTag_frame:
  assumes "SeedTag This CS i st = Inr st'"
  shows "tags_frame st st'"
proof -
  obtain ns v where r: "RandR (TLS_Rand st) = (ns, v)" by (cases "RandR (TLS_Rand st)")
  from assms have "SetMemoryTag (st\<lparr>TLS_Rand := ns\<rparr>) (This + i * CS) CS (ucast v) = Inr st'"
    by (simp add: SeedTag_def r Let_def)
  from SetMemoryTag_frame[OF this] show ?thesis by (simp add: tags_frame_def)
qed

lemma for_each_SeedTag_frame:
  assumes "for_each (SeedTag This CS) xs st = Inr st'"
  shows "tags_frame st st'"
  by (rule for_each_invariant[OF assms, where P = "tags_frame st"])
     (auto intro: tags_frame_refl tags_frame_trans dest: SeedTag_frame)

lemma AllocateSuperPage_shape:
  assumes sc: "SizeToSizeClass (SCDescr st) Size = Inr (SC, SCD)"
    and a: "AllocateSuperPage st Size = Inr st'"
  defines "R \<equiv> RangeNum SCD"
  defines "g \<equiv> (if R = 0 then 0 else 2 ^ 20) + NumSuperPages st R"
  shows "g < 2 ^ 21"
    "NumSuperPages st' = (NumSuperPages st)(R := NumSuperPages st R + 1)"
    "SuperPageMetadata st' = (SuperPageMetadata st)(g := word_of_nat SC)"
    "Mem st' = (\<lambda>a. if SPA g \<le> a \<and> a < SPA g + kSuperPageSize then 0 else Mem st a)"
    "Config st' = Config st" "SCDescr st' = SCDescr st" "InitAllOnce st' = InitAllOnce st"
    "SecondRangeMeta st' = SecondRangeMeta st" "DataOnlyScopeLevel st' = DataOnlyScopeLevel st"
    "TLS_PerSC st' = TLS_PerSC st"
proof -
  from a sc obtain Res where gs: "GetSuperPage R (NumSuperPages st R) = Inr Res"
    by (auto simp: AllocateSuperPage_def R_def split: sum.splits)
  from GetSuperPage_SPA[OF gs] have res: "Res = SPA g" and g: "g < 2 ^ 21"
    by (simp_all add: g_def)
  let ?st1 = "mmap_fixed st Res kSuperPageSize"
  from a sc gs obtain st2 where ss: "SetSizeClass ?st1 Res (word_of_nat SC) = Inr st2"
    by (auto simp: AllocateSuperPage_def R_def Let_def split: sum.splits)
  have i: "FixedShadow_Index kAllocatorSpace kSuperPageSize (SPA g + 0) = g"
    by (rule FixedShadow_Index_SPA[OF g]) (simp add: kSuperPageSize_def)
  from ss have st2: "st2 = ?st1\<lparr>SuperPageMetadata := (SuperPageMetadata ?st1)(g := word_of_nat SC)\<rparr>"
    using i by (auto simp: SetSizeClass_def res split: if_splits)
  from a sc gs ss obtain st3 where
    fe: "for_each (SeedTag Res (ChunkSize SCD)) [0..<(if ChunkSize SCD = 0 then 0 else NumChunks SCD)] st2 = Inr st3"
    and st': "st' = st3\<lparr>NumSuperPages := (NumSuperPages st3)(R := NumSuperPages st3 R + 1)\<rparr>"
    by (auto simp: AllocateSuperPage_def R_def Let_def split: sum.splits)
  from for_each_SeedTag_frame[OF fe] have f: "tags_frame st2 st3" .
  show "g < 2 ^ 21" by (rule g)
  show "NumSuperPages st' = (NumSuperPages st)(R := NumSuperPages st R + 1)"
    using f by (simp add: st' st2 tags_frame_def mmap_fixed_def)
  show "SuperPageMetadata st' = (SuperPageMetadata st)(g := word_of_nat SC)"
    using f by (simp add: st' st2 tags_frame_def mmap_fixed_def)
  show "Mem st' = (\<lambda>a. if SPA g \<le> a \<and> a < SPA g + kSuperPageSize then 0 else Mem st a)"
    using f by (simp add: st' st2 tags_frame_def mmap_fixed_def res)
  show "Config st' = Config st" "SCDescr st' = SCDescr st" "InitAllOnce st' = InitAllOnce st"
    "SecondRangeMeta st' = SecondRangeMeta st" "DataOnlyScopeLevel st' = DataOnlyScopeLevel st"
    "TLS_PerSC st' = TLS_PerSC st"
    using f by (simp_all add: st' st2 tags_frame_def mmap_fixed_def)
qed

lemma SPA_disjoint:
  assumes "x < kSuperPageSize" "g' \<noteq> g"
  shows "\<not> (SPA g \<le> SPA g' + x \<and> SPA g' + x < SPA g + kSuperPageSize)"
proof
  assume a: "SPA g \<le> SPA g' + x \<and> SPA g' + x < SPA g + kSuperPageSize"
  then obtain y where y: "SPA g' + x = SPA g + y" "y < kSuperPageSize"
    by (metis add_diff_inverse_nat less_diff_conv2 nat_add_left_cancel_less not_less)
  from arg_cong[OF y(1), of "\<lambda>v. v div kSuperPageSize"] have "g' = g"
    unfolding SPA_div[OF assms(1)] SPA_div[OF y(2)] by simp
  with assms(2) show False by simp
qed

lemma started_table:
  assumes "started st" "SizeToSizeClass (SCDescr st) Size = Inr (SC, SCD)"
  shows "SC < kNumSizeClasses" "SCD = SCDescr st ! SC" "wf_SCD SCD" "SCD \<in> set (SCDescr st)"
    "unat (word_of_nat SC :: u8) = SC"
proof -
  from SizeToSizeClass_result[OF assms(2)] show sc: "SC < kNumSizeClasses" and d: "SCD = SCDescr st ! SC"
    by simp_all
  from assms(1) have tab: "InitAll = Some (SCDescr st)" by (simp add: started_def)
  then have t: "SCDescr st = the InitAll" by (metis option.sel)
  then have len: "length (SCDescr st) = 67" by (simp add: length_the_InitAll)
  show mem: "SCD \<in> set (SCDescr st)" using sc len by (simp add: d kNumSizeClasses_67)
  then show "wf_SCD SCD" using InitAll_wf_SCD t by simp
  show "unat (word_of_nat SC :: u8) = SC"
    using sc by (simp add: kNumSizeClasses_67 unsigned_of_nat take_bit_nat_eq_self_iff)
qed

lemma AllocateSuperPage_spec:
  assumes st: "started st" and sc: "SizeToSizeClass (SCDescr st) Size = Inr (SC, SCD)"
    and a: "AllocateSuperPage st Size = Inr st'" and bound: "NumSuperPages st' 0 \<le> 2 ^ 20"
  shows "started st'" "grows st st'" "TLS_PerSC st' = TLS_PerSC st"
proof -
  define R where "R = RangeNum SCD"
  define g where "g = (if R = 0 then 0 else 2 ^ 20) + NumSuperPages st R"
  note sh = AllocateSuperPage_shape[OF sc a, folded R_def, folded g_def]
  note t = started_table[OF st sc]
  have R: "R \<le> 1" using t(3) by (simp add: wf_SCD_def R_def)
  from st have n0: "NumSuperPages st 0 \<le> 2 ^ 20" and n1: "NumSuperPages st 1 \<le> 2 ^ 20"
    by (simp_all add: started_def)
  have R1: "R \<noteq> 0 \<Longrightarrow> R = 1" using R by simp
  have unm: "\<not> is_mapped st g"
    using bound n0 R1 by (auto simp: is_mapped_def g_def sh(2))
  have m': "is_mapped st' g' \<longleftrightarrow> is_mapped st g' \<or> g' = g" for g'
    using bound n0 R1 by (auto simp: is_mapped_def g_def sh(2))
  have grange: "(if g < 2 ^ 20 then 0 else 1) = R"
    using bound n0 R1 by (auto simp: g_def sh(2))
  show "TLS_PerSC st' = TLS_PerSC st" by (rule sh(10))
  show "started st'"
    unfolding started_def
  proof (intro conjI allI impI)
    show "InitAllOnce st'" "InitAll = Some (SCDescr st')"
      using st by (simp_all add: sh started_def)
    show "NumSuperPages st' 0 \<le> 2 ^ 20" by (rule bound)
    show "NumSuperPages st' 1 \<le> 2 ^ 20"
      using n1 sh(1) R1 by (auto simp: sh(2) g_def)
  next
    fix g' assume g': "is_mapped st' g'"
    show "unat (SuperPageMetadata st' g') < kNumSizeClasses"
      using g' st t(1,5) unfolding m' sh(3) by (auto simp: started_def)
    show "RangeNum (SCDescr st' ! unat (SuperPageMetadata st' g')) = (if g' < 2 ^ 20 then 0 else 1)"
    proof (cases "g' = g")
      case True
      then show ?thesis using t(2,5) grange by (simp add: sh R_def)
    next
      case False
      with g' have "is_mapped st g'" by (simp add: m')
      with st False show ?thesis by (simp add: sh started_def)
    qed
  next
    fix SC' assume "fst (TLS_PerSC st' SC') \<noteq> 0"
    then have nz: "fst (TLS_PerSC st SC') \<noteq> 0" by (simp add: sh)
    with st show "SC' < kNumSizeClasses" by (simp add: started_def)
    from st nz obtain g' where g': "is_mapped st g'" "fst (TLS_PerSC st SC') = SPA g'"
      "SuperPageMetadata st g' = word_of_nat SC'"
      unfolding started_def by blast
    with unm have "g' \<noteq> g" by auto
    with g' show "\<exists>g. is_mapped st' g \<and> fst (TLS_PerSC st' SC') = SPA g \<and>
             SuperPageMetadata st' g = word_of_nat SC'"
      by (intro exI[of _ g']) (simp add: m' sh)
  qed
  show "grows st st'"
    unfolding grows_def
  proof (intro conjI allI impI)
    show "NumSuperPages st 0 \<le> NumSuperPages st' 0" "NumSuperPages st 1 \<le> NumSuperPages st' 1"
      by (simp_all add: sh(2))
  next
    fix g' assume "is_mapped st g'"
    with unm have "g' \<noteq> g" by auto
    then show "SuperPageMetadata st' g' = SuperPageMetadata st g'" by (simp add: sh)
  next
    fix g' x assume "is_mapped st g' \<and> x < kSuperPageSize"
    with unm have ne: "g' \<noteq> g" and x: "x < kSuperPageSize" by auto
    from SPA_disjoint[OF x ne] show "Mem st' (SPA g' + x) = Mem st (SPA g' + x)"
      by (auto simp: sh(4))
  qed (simp_all add: sh)
qed

lemma AllocateSuperPage_count:
  assumes "AllocateSuperPage st Size = Inr st'"
  shows "NumSuperPages st 0 \<le> NumSuperPages st' 0"
proof -
  from assms obtain SC SCD where sc: "SizeToSizeClass (SCDescr st) Size = Inr (SC, SCD)"
    by (auto simp: AllocateSuperPage_def split: sum.splits)
  from AllocateSuperPage_shape(2)[OF sc assms] show ?thesis by simp
qed

lemma grows_allocates:
  assumes "grows st st1" "allocates st1 p st'"
  shows "allocates st p st'"
proof -
  from assms(2) obtain st2 g Pos Tag where a: "grows st1 st2" "takes st2 g Pos st'"
    "p = ApplyAddressTag (Config st1) (SPA g + Pos * ChunkSize (SCD_of st2 g)) Tag"
    unfolding allocates_def by blast
  have "Config st1 = Config st" using assms(1) by (simp add: grows_def)
  with a grows_trans[OF assms(1) a(1)] show ?thesis unfolding allocates_def by auto
qed

lemma SPA_nonzero: "SPA g \<noteq> 0"
  by (simp add: SPA_def kAllocatorSpace_def)

lemma started_tls:
  assumes st: "started st" and g: "is_mapped st g"
    and m: "SuperPageMetadata st g = word_of_nat SC" and sc: "SC < kNumSizeClasses"
  shows "started (st\<lparr>TLS_PerSC := (TLS_PerSC st)(SC := (SPA g, h))\<rparr>)"
  using assms unfolding started_def is_mapped_def by auto

lemma is_mapped_store [simp]: "is_mapped (store_state st S i v) g = is_mapped st g"
  by (simp add: is_mapped_def)

lemma is_mapped_tls [simp]: "is_mapped (st\<lparr>TLS_PerSC := f\<rparr>) g = is_mapped st g"
  by (simp add: is_mapped_def)

lemma is_mapped_rand [simp]: "is_mapped (st\<lparr>TLS_Rand := f\<rparr>) g = is_mapped st g"
  by (simp add: is_mapped_def)

lemma started_store:
  assumes "started st"
  shows "started (store_state st S i v)"
  using assms unfolding started_def by simp

lemma started_rand:
  assumes "started st"
  shows "started (st\<lparr>TLS_Rand := r\<rparr>)"
  using assms unfolding started_def by simp

lemma grows_tls: "grows st (st\<lparr>TLS_PerSC := f\<rparr>)"
  by (simp add: grows_def)

lemma grows_rand: "grows st (st\<lparr>TLS_Rand := f\<rparr>)"
  by (simp add: grows_def)

lemma TryAllocate_mapped:
  assumes st: "started st" and g: "is_mapped st g"
    and m: "SuperPageMetadata st g = word_of_nat SC" and sc: "SC < kNumSizeClasses"
    and d: "SCD = SCDescr st ! SC"
    and t: "TryAllocate st (SPA g) D SCD Hint = Inr (Res, Hint', st')"
  shows "(Res = 0 \<and> st' = st) \<or>
         (Res \<noteq> 0 \<and> (\<exists>Pos Tag. Pos < NumChunks (SCD_of st g) \<and>
            load_state st (State_of st g) Pos = AVAILABLE \<and>
            st' = store_state st (State_of st g) Pos (if D then USED_DATA else USED_MIXED) \<and>
            Res = ApplyAddressTag (Config st) (SPA g + Pos * ChunkSize (SCD_of st g)) Tag))"
proof -
  have u: "unat (word_of_nat SC :: u8) = SC"
    using sc by (simp add: kNumSizeClasses_67 unsigned_of_nat take_bit_nat_eq_self_iff)
  have scd: "SCD_of st g = SCD" by (simp add: SCD_of_def m u d)
  note c = started_SCD_of[OF st g]
  from TryAllocate_cases[OF t] show ?thesis
  proof
    assume "Res = 0 \<and> Hint' = Hint \<and> st' = st"
    then show ?thesis by simp
  next
    assume "\<exists>Pos Tag. Pos < NumChunks SCD \<and>
            load_state st (State (SPA g) (NumChunks SCD) (RangeNum SCD)) Pos = AVAILABLE \<and>
            st' = store_state st (State (SPA g) (NumChunks SCD) (RangeNum SCD)) Pos
                    (if D then USED_DATA else USED_MIXED) \<and>
            Res = ApplyAddressTag (Config st) (AddressOfChunk (SPA g) Pos SCD) Tag \<and>
            Hint' = Pos + 1"
    then obtain Pos Tag where p: "Pos < NumChunks SCD"
      "load_state st (State (SPA g) (NumChunks SCD) (RangeNum SCD)) Pos = AVAILABLE"
      "st' = store_state st (State (SPA g) (NumChunks SCD) (RangeNum SCD)) Pos
                    (if D then USED_DATA else USED_MIXED)"
      "Res = ApplyAddressTag (Config st) (AddressOfChunk (SPA g) Pos SCD) Tag" by blast
    have pl: "Pos < NumChunks (SCD_of st g)" using p(1) scd by simp
    from wf_SCD_chunk_bound[OF c(2) pl]
    have b: "Pos * ChunkSize SCD < kSuperPageSize" by (simp add: scd)
    have lo: "kAllocatorSpace \<le> SPA g + Pos * ChunkSize SCD" by (simp add: SPA_def)
    have hi: "SPA g + Pos * ChunkSize SCD < kAllocatorSpace + kAllocatorSize"
      using SPA_lt[OF c(1)] b by simp
    have "Res \<noteq> 0"
      unfolding p(4) AddressOfChunk_def by (rule tagged_nonzero[OF lo hi])
    with p show ?thesis
      unfolding State_of_def scd AddressOfChunk_def by blast
  qed
qed

lemma TryAllocate_count:
  assumes "TryAllocate st This D SCD Hint = Inr (Res, Hint', st')"
  shows "NumSuperPages st' = NumSuperPages st"
  using TryAllocate_cases[OF assms] by auto

lemma AllocateSlower_for_count:
  "AllocateSlower_for SC SCD N Offset I st = Inr (Res, st') \<Longrightarrow>
   NumSuperPages st' = NumSuperPages st"
proof (induction SC SCD N Offset I st rule: AllocateSlower_for.induct)
  case (1 SC SCD N Offset I st)
  show ?case
  proof (cases "I < N")
    case False
    with "1.prems" show ?thesis by (subst (asm) AllocateSlower_for.simps) simp
  next
    case True
    let ?Idx = "rotate_idx N Offset I"
    show ?thesis
    proof (cases "SuperPageMetadata st (kMeta_Index (RangeNum SCD) ?Idx) = word_of_nat SC")
      case f: False
      with True "1.prems" have "AllocateSlower_for SC SCD N Offset (I + 1) st = Inr (Res, st')"
        by (subst (asm) AllocateSlower_for.simps) (simp add: Let_def)
      from "1.IH"(2)[OF True refl f this]
      show ?thesis .
    next
      case t: True
      from True t "1.prems" obtain SP where sp: "GetSuperPage (RangeNum SCD) ?Idx = Inr SP"
        by (subst (asm) AllocateSlower_for.simps) (auto simp: Let_def split: sum.splits)
      let ?st1 = "st\<lparr>TLS_PerSC := (TLS_PerSC st)(SC := (SP, snd (TLS_PerSC st SC)))\<rparr>"
      from True t sp "1.prems" obtain R H st2 where
        ta: "TryAllocate ?st1 SP (DataOnlyScopeLevel ?st1 \<noteq> 0) SCD (snd (TLS_PerSC ?st1 SC)) = Inr (R, H, st2)"
        by (subst (asm) AllocateSlower_for.simps)
           (auto simp: Let_def split: sum.splits)
      from TryAllocate_count[OF ta] have n2: "NumSuperPages st2 = NumSuperPages st"
        by simp
      show ?thesis
      proof (cases "R = 0")
        case r: False
        from True t sp ta r "1.prems" have "st' = st2\<lparr>TLS_PerSC := (TLS_PerSC st2)(SC := (SP, H))\<rparr>"
          by (subst (asm) AllocateSlower_for.simps)
             (auto simp: Let_def split: sum.splits)
        with n2 show ?thesis by simp
      next
        case r: True
        from True t sp ta r "1.prems" have rec: "AllocateSlower_for SC SCD N Offset (I + 1) st2 = Inr (Res, st')"
          by (subst (asm) AllocateSlower_for.simps)
             (auto simp: Let_def split: sum.splits)
        have "NumSuperPages st' = NumSuperPages st2"
          by (rule "1.IH"(1)[OF True refl t sp refl ta refl refl _ rec]) (use r in simp)
        with n2 show ?thesis by simp
      qed
    qed
  qed
qed

lemma store_tls_reset:
  "(store_state st S i v)\<lparr>TLS_PerSC := f\<rparr>\<lparr>TLS_PerSC := TLS_PerSC st\<rparr> = store_state st S i v"
  by (cases S; simp add: store_state_def)

lemma SCD_of_tls [simp]: "SCD_of (st\<lparr>TLS_PerSC := f\<rparr>) g = SCD_of st g"
  by (simp add: SCD_of_def)

lemma State_of_tls [simp]: "State_of (st\<lparr>TLS_PerSC := f\<rparr>) g = State_of st g"
  by (simp add: State_of_def)

lemma AllocateSlower_for_spec:
  assumes "started st" "SC < kNumSizeClasses" "SCD = SCDescr st ! SC"
    "N = NumSuperPages st (RangeNum SCD)" "Offset \<le> N"
    "AllocateSlower_for SC SCD N Offset I st = Inr (Res, st')"
  shows "(Res = 0 \<longrightarrow> started st' \<and> grows st st') \<and> (Res \<noteq> 0 \<longrightarrow> allocates st Res st')"
  using assms
proof (induction SC SCD N Offset I st rule: AllocateSlower_for.induct)
  case (1 SC SCD N Offset I st)
  note st = \<open>started st\<close> and sc = \<open>SC < kNumSizeClasses\<close> and d = \<open>SCD = SCDescr st ! SC\<close>
    and N = \<open>N = NumSuperPages st (RangeNum SCD)\<close> and off = \<open>Offset \<le> N\<close>
    and run = \<open>AllocateSlower_for SC SCD N Offset I st = Inr (Res, st')\<close>
  show ?case
  proof (cases "I < N")
    case False
    with run have "Res = 0" "st' = st" by (subst (asm) AllocateSlower_for.simps, simp)+
    with st show ?thesis by (simp add: grows_refl)
  next
    case True
    let ?Idx = "rotate_idx N Offset I"
    show ?thesis
    proof (cases "SuperPageMetadata st (kMeta_Index (RangeNum SCD) ?Idx) = word_of_nat SC")
      case f: False
      with True run have "AllocateSlower_for SC SCD N Offset (I + 1) st = Inr (Res, st')"
        by (subst (asm) AllocateSlower_for.simps) (simp add: Let_def)
      from "1.IH"(2)[OF True refl f st sc d N off this]
      show ?thesis .
    next
      case t: True
      from True t run obtain SP where sp: "GetSuperPage (RangeNum SCD) ?Idx = Inr SP"
        by (subst (asm) AllocateSlower_for.simps) (auto simp: Let_def split: sum.splits)
      let ?st1 = "st\<lparr>TLS_PerSC := (TLS_PerSC st)(SC := (SP, snd (TLS_PerSC st SC)))\<rparr>"
      from True t sp run obtain R H st2 where
        ta: "TryAllocate ?st1 SP (DataOnlyScopeLevel ?st1 \<noteq> 0) SCD (snd (TLS_PerSC ?st1 SC)) = Inr (R, H, st2)"
        by (subst (asm) AllocateSlower_for.simps)
           (auto simp: Let_def split: sum.splits)
      define g where "g = (if RangeNum SCD = 0 then 0 else 2 ^ 20) + ?Idx"
      from GetSuperPage_SPA[OF sp] have SP: "SP = SPA g" by (simp add: g_def)
      from st have tab: "InitAll = Some (SCDescr st)" by (simp add: started_def)
      then have tt: "SCDescr st = the InitAll" by (metis option.sel)
      have "SCD \<in> set (SCDescr st)"
        using sc by (simp add: d tt length_the_InitAll kNumSizeClasses_67)
      then have "wf_SCD SCD" using InitAll_wf_SCD tt by simp
      then have R01: "RangeNum SCD = 0 \<or> RangeNum SCD = 1" by (auto simp: wf_SCD_def)
      have idx: "?Idx < N" by (rule rotate_idx_less[OF off True])
      have g: "is_mapped st g"
        using R01 idx N by (auto simp: is_mapped_def g_def)
      have m: "SuperPageMetadata st g = word_of_nat SC"
        using t by (simp add: kMeta_Index_eq g_def)
      have st1: "started ?st1" unfolding SP by (rule started_tls[OF st g m sc])
      have gr1: "grows st ?st1" by (rule grows_tls)
      have ta': "TryAllocate ?st1 (SPA g) (DataOnlyScopeLevel ?st1 \<noteq> 0) SCD (snd (TLS_PerSC ?st1 SC)) = Inr (R, H, st2)"
        using ta by (simp add: SP)
      have g1: "is_mapped ?st1 g" using g by simp
      have m1: "SuperPageMetadata ?st1 g = word_of_nat SC" using m by simp
      have d1: "SCD = SCDescr ?st1 ! SC" using d by simp
      from TryAllocate_mapped[OF st1 g1 m1 sc d1 ta']
      show ?thesis
      proof
        assume z: "R = 0 \<and> st2 = ?st1"
        with True t sp ta run have rec: "AllocateSlower_for SC SCD N Offset (I + 1) ?st1 = Inr (Res, st')"
          by (subst (asm) AllocateSlower_for.simps)
             (auto simp: Let_def split: sum.splits)
        have rec2: "AllocateSlower_for SC SCD N Offset (I + 1) st2 = Inr (Res, st')"
          using rec z by simp
        have N1: "N = NumSuperPages st2 (RangeNum SCD)" using N z by simp
        have "(Res = 0 \<longrightarrow> started st' \<and> grows st2 st') \<and> (Res \<noteq> 0 \<longrightarrow> allocates st2 Res st')"
          by (rule "1.IH"(1)[OF True refl t sp refl ta refl refl _ _ sc _ N1 off rec2])
             (use z st1 d in auto)
        then show ?thesis
          using z gr1 by (auto intro: grows_trans grows_allocates)
      next
        assume "R \<noteq> 0 \<and> (\<exists>Pos Tag. Pos < NumChunks (SCD_of ?st1 g) \<and>
            load_state ?st1 (State_of ?st1 g) Pos = AVAILABLE \<and>
            st2 = store_state ?st1 (State_of ?st1 g) Pos (if DataOnlyScopeLevel ?st1 \<noteq> 0 then USED_DATA else USED_MIXED) \<and>
            R = ApplyAddressTag (Config ?st1) (SPA g + Pos * ChunkSize (SCD_of ?st1 g)) Tag)"
        then obtain Pos Tag where r: "R \<noteq> 0" and pos: "Pos < NumChunks (SCD_of ?st1 g)"
          and av: "load_state ?st1 (State_of ?st1 g) Pos = AVAILABLE"
          and st2: "st2 = store_state ?st1 (State_of ?st1 g) Pos (if DataOnlyScopeLevel ?st1 \<noteq> 0 then USED_DATA else USED_MIXED)"
          and R: "R = ApplyAddressTag (Config ?st1) (SPA g + Pos * ChunkSize (SCD_of ?st1 g)) Tag"
          by blast
        from True t sp ta r run have res: "Res = R"
          and st': "st' = st2\<lparr>TLS_PerSC := (TLS_PerSC st2)(SC := (SP, H))\<rparr>"
          by (subst (asm) AllocateSlower_for.simps, auto simp: Let_def split: sum.splits)+
        have s2: "started st2" unfolding st2 by (rule started_store[OF st1])
        have "started st'"
          unfolding st' SP
          by (rule started_tls[OF s2 _ _ sc]) (use g m in \<open>simp_all add: st2\<close>)
        moreover have "store_state ?st1 (State_of ?st1 g) Pos (if DataOnlyScopeLevel ?st1 \<noteq> 0 then USED_DATA else USED_MIXED)
                        = st'\<lparr>TLS_PerSC := TLS_PerSC ?st1\<rparr>"
          unfolding st' st2 by (rule store_tls_reset[symmetric])
        then have "\<exists>v. (v = USED_MIXED \<or> v = USED_DATA) \<and>
                     store_state ?st1 (State_of ?st1 g) Pos v = st'\<lparr>TLS_PerSC := TLS_PerSC ?st1\<rparr>"
          by (intro exI[of _ "if DataOnlyScopeLevel ?st1 \<noteq> 0 then USED_DATA else USED_MIXED"]) simp
        ultimately have "takes ?st1 g Pos st'"
          unfolding takes_def using st1 g1 pos av by blast
        then have "allocates st Res st'"
          unfolding allocates_def res R
          by (intro exI[of _ ?st1] exI[of _ g] exI[of _ Pos] exI[of _ Tag]) (simp add: gr1)
        with res r show ?thesis by simp
      qed
    qed
  qed
qed

lemma started_tls_hint:
  assumes "started st" "\<And>SC. fst (f SC) = fst (TLS_PerSC st SC)"
  shows "started (st\<lparr>TLS_PerSC := f\<rparr>)"
  using assms unfolding started_def by simp

lemma allocates_count:
  assumes "allocates st p st'"
  shows "NumSuperPages st 0 \<le> NumSuperPages st' 0"
proof -
  from assms obtain st1 g Pos v where a: "grows st st1"
    "store_state st1 (State_of st1 g) Pos v = st'\<lparr>TLS_PerSC := TLS_PerSC st1\<rparr>"
    unfolding allocates_def takes_def by blast
  from arg_cong[OF a(2), of NumSuperPages] have "NumSuperPages st' = NumSuperPages st1" by simp
  with a(1) show ?thesis by (simp add: grows_def)
qed

lemma AllocateSlower_while_step:
  assumes IH: "\<And>Size SC SCD st y. f Size SC SCD st = Some y \<Longrightarrow> while_post Size SC SCD st y"
    and body: "(let N = NumSuperPages st (RangeNum SCD);
          (st, Offset) =
            if N \<noteq> 0
            then let (NewState, Val) = RandR (TLS_Rand st)
                 in (st\<lparr>TLS_Rand := NewState\<rparr>, unat Val mod N)
            else (st, 0)
      in case AllocateSlower_for SC SCD N Offset 0 st of
         Inl f \<Rightarrow> Some (Inl f)
         | Inr (Res, st) \<Rightarrow>
             if Res \<noteq> 0 then Some (Inr (Res, st))
             else case AllocateSuperPage st Size of Inl f \<Rightarrow> Some (Inl f)
                  | Inr st \<Rightarrow>
                      f Size SC SCD
                       (st\<lparr>TLS_PerSC :=
                             (TLS_PerSC st)
                             (SC := (fst (TLS_PerSC st SC), 0))\<rparr>)) =
     Some y"
  shows "while_post Size SC SCD st y"
  unfolding while_post_def
proof (intro allI impI)
  fix Res st' assume y: "y = Inr (Res, st')"
  define N where "N = NumSuperPages st (RangeNum SCD)"
  define st0 where "st0 = (if N \<noteq> 0 then st\<lparr>TLS_Rand := fst (RandR (TLS_Rand st))\<rparr> else st)"
  define Offset where "Offset = (if N \<noteq> 0 then unat (snd (RandR (TLS_Rand st))) mod N else 0)"
  have off: "Offset \<le> N"
    unfolding Offset_def by (simp add: less_imp_le)
  have n0: "NumSuperPages st0 = NumSuperPages st" by (simp add: st0_def)
  have gr0: "grows st st0" by (simp add: st0_def grows_rand grows_refl)
  have body': "(case AllocateSlower_for SC SCD N Offset 0 st0 of
         Inl f \<Rightarrow> Some (Inl f)
         | Inr (Res, st) \<Rightarrow>
             if Res \<noteq> 0 then Some (Inr (Res, st))
             else case AllocateSuperPage st Size of Inl f \<Rightarrow> Some (Inl f)
                  | Inr st \<Rightarrow>
                      f Size SC SCD
                       (st\<lparr>TLS_PerSC := (TLS_PerSC st)(SC := (fst (TLS_PerSC st SC), 0))\<rparr>)) =
     Some (Inr (Res, st'))"
    using body unfolding y N_def st0_def Offset_def Let_def
    by (simp add: case_prod_beta split: if_splits)
  then obtain R st1 where fr: "AllocateSlower_for SC SCD N Offset 0 st0 = Inr (R, st1)"
    by (auto split: sum.splits)
  from AllocateSlower_for_count[OF fr] have n1: "NumSuperPages st1 = NumSuperPages st"
    by (simp add: n0)
  have spec1: "(R = 0 \<longrightarrow> started st1 \<and> grows st0 st1) \<and> (R \<noteq> 0 \<longrightarrow> allocates st0 R st1)"
    if "started st" "SizeToSizeClass (SCDescr st) Size = Inr (SC, SCD)"
  proof -
    note t = started_table[OF that]
    have s0: "started st0" using that(1) by (simp add: st0_def started_rand)
    show ?thesis
      by (rule AllocateSlower_for_spec[OF s0 t(1) _ _ off fr]) (simp_all add: t(2) st0_def N_def)
  qed
  show "NumSuperPages st 0 \<le> NumSuperPages st' 0 \<and>
        (started st \<and> SizeToSizeClass (SCDescr st) Size = Inr (SC, SCD) \<and>
         NumSuperPages st' 0 \<le> 2 ^ 20 \<longrightarrow> Res \<noteq> 0 \<and> allocates st Res st')"
  proof (cases "R = 0")
    case False
    with body' fr have e: "Res = R" "st' = st1" by simp_all
    have "NumSuperPages st 0 \<le> NumSuperPages st' 0" by (simp add: e n1)
    moreover have "Res \<noteq> 0 \<and> allocates st Res st'"
      if "started st" "SizeToSizeClass (SCDescr st) Size = Inr (SC, SCD)"
      using spec1[OF that] False gr0 by (auto simp: e intro: grows_allocates)
    ultimately show ?thesis by blast
  next
    case True
    with body' fr obtain st2 where asp: "AllocateSuperPage st1 Size = Inr st2"
      by (auto split: sum.splits)
    let ?st3 = "st2\<lparr>TLS_PerSC := (TLS_PerSC st2)(SC := (fst (TLS_PerSC st2 SC), 0))\<rparr>"
    from body' fr True asp have rec: "f Size SC SCD ?st3 = Some (Inr (Res, st'))" by simp
    from IH[OF rec] have post: "while_post Size SC SCD ?st3 (Inr (Res, st'))" .
    then have c3: "NumSuperPages ?st3 0 \<le> NumSuperPages st' 0"
      unfolding while_post_def by blast
    have c2: "NumSuperPages st 0 \<le> NumSuperPages st2 0"
      using AllocateSuperPage_count[OF asp] by (simp add: n1)
    have cnt: "NumSuperPages st 0 \<le> NumSuperPages st' 0" using c2 c3 by simp
    moreover have "Res \<noteq> 0 \<and> allocates st Res st'"
      if st: "started st" and sc: "SizeToSizeClass (SCDescr st) Size = Inr (SC, SCD)"
        and bound: "NumSuperPages st' 0 \<le> 2 ^ 20"
    proof -
      from spec1[OF st sc] True have s1: "started st1" and g1: "grows st0 st1" by simp_all
      have d1: "SCDescr st1 = SCDescr st"
        using g1 gr0 st by (simp add: grows_def started_def)
      have sc1: "SizeToSizeClass (SCDescr st1) Size = Inr (SC, SCD)" using sc d1 by simp
      have b2: "NumSuperPages st2 0 \<le> 2 ^ 20" using c3 bound by simp
      note a = AllocateSuperPage_spec[OF s1 sc1 asp b2]
      have s3: "started ?st3" by (rule started_tls_hint[OF a(1)]) simp
      have d3: "SCDescr ?st3 = SCDescr st" using a(2) s1 d1 by (simp add: grows_def started_def)
      have sc3: "SizeToSizeClass (SCDescr ?st3) Size = Inr (SC, SCD)" using sc d3 by simp
      from post s3 sc3 bound have r: "Res \<noteq> 0" and al: "allocates ?st3 Res st'"
        unfolding while_post_def by blast+
      have "grows st ?st3"
        by (rule grows_trans[OF gr0 grows_trans[OF g1 grows_trans[OF a(2) grows_tls]]])
      from grows_allocates[OF this al] r show ?thesis by simp
    qed
    ultimately show ?thesis by blast
  qed
qed

lemma AllocateSlower_while_spec:
  assumes "AllocateSlower_while Size SC SCD st = Some y"
  shows "while_post Size SC SCD st y"
  using assms
  by (rule AllocateSlower_while.raw_induct[rotated]) (rule AllocateSlower_while_step)

lemma TryAllocate_allocates:
  assumes st: "started st" and g: "is_mapped st g"
    and m: "SuperPageMetadata st g = word_of_nat SC" and sc: "SC < kNumSizeClasses"
    and d: "SCD = SCDescr st ! SC"
    and t: "TryAllocate st (SPA g) D SCD Hint = Inr (Res, Hint', st2)" and r: "Res \<noteq> 0"
  shows "allocates st Res (st2\<lparr>TLS_PerSC := (TLS_PerSC st2)(SC := (SPA g, h))\<rparr>)"
proof -
  let ?st' = "st2\<lparr>TLS_PerSC := (TLS_PerSC st2)(SC := (SPA g, h))\<rparr>"
  from TryAllocate_mapped[OF st g m sc d t] r obtain Pos Tag where
    pos: "Pos < NumChunks (SCD_of st g)" and av: "load_state st (State_of st g) Pos = AVAILABLE"
    and st2: "st2 = store_state st (State_of st g) Pos (if D then USED_DATA else USED_MIXED)"
    and R: "Res = ApplyAddressTag (Config st) (SPA g + Pos * ChunkSize (SCD_of st g)) Tag"
    by blast
  have s2: "started st2" unfolding st2 by (rule started_store[OF st])
  have "started ?st'"
    by (rule started_tls[OF s2 _ _ sc]) (use g m in \<open>simp_all add: st2\<close>)
  moreover have "store_state st (State_of st g) Pos (if D then USED_DATA else USED_MIXED)
                  = ?st'\<lparr>TLS_PerSC := TLS_PerSC st\<rparr>"
    unfolding st2 by (rule store_tls_reset[symmetric])
  then have "\<exists>v. (v = USED_MIXED \<or> v = USED_DATA) \<and>
               store_state st (State_of st g) Pos v = ?st'\<lparr>TLS_PerSC := TLS_PerSC st\<rparr>"
    by (intro exI[of _ "if D then USED_DATA else USED_MIXED"]) simp
  ultimately have "takes st g Pos ?st'"
    unfolding takes_def using st g pos av by blast
  then show ?thesis
    unfolding allocates_def R
    by (intro exI[of _ st] exI[of _ g] exI[of _ Pos] exI[of _ Tag]) (simp add: grows_refl)
qed

lemma fresh_not_started: "fresh st \<Longrightarrow> \<not> InitAllOnce st"
  by (simp add: fresh_def)

lemma AllocateSlower_spec:
  assumes c: "consistent st" and a: "AllocateSlower st Size = Some (Inr (p, st'))"
    and bound: "NumSuperPages st' 0 \<le> 2 ^ 20"
  shows "allocates st p st'"
proof -
  obtain T where T: "InitAll = Some T" using InitAll_Some by blast
  define st1 where "st1 =
    (if TLS_Rand st = 0 then
       (if InitAllOnce st then st\<lparr>TLS_Rand := word_of_nat (pthread_self_val st)\<rparr>
        else st\<lparr>SCDescr := T, InitAllOnce := True,
                TLS_Rand := word_of_nat (pthread_self_val st)\<rparr>)
     else st)"
  have s1: "started st1"
  proof (cases "fresh st")
    case True
    then have "st1 = st\<lparr>SCDescr := T, InitAllOnce := True,
                TLS_Rand := word_of_nat (pthread_self_val st)\<rparr>"
      by (simp add: st1_def fresh_def)
    with True show ?thesis
      by (simp add: started_def fresh_def is_mapped_def T)
  next
    case False
    with c have "started st" by (simp add: consistent_def)
    then show ?thesis by (auto simp: st1_def started_rand started_def)
  qed
  have g1: "grows st st1"
    by (auto simp: st1_def grows_def)
  have a1: "(case SizeToSizeClass (SCDescr st1) Size of
               Inl f \<Rightarrow> Some (Inl f)
             | Inr (SC, SCD) \<Rightarrow> AllocateSlower_while Size SC SCD st1) = Some (Inr (p, st'))"
    using a unfolding AllocateSlower_def st1_def
    by (auto simp: T split: if_splits)
  then obtain SC SCD where sc: "SizeToSizeClass (SCDescr st1) Size = Inr (SC, SCD)"
    and w: "AllocateSlower_while Size SC SCD st1 = Some (Inr (p, st'))"
    by (auto split: sum.splits)
  from AllocateSlower_while_spec[OF w] s1 sc bound have "allocates st1 p st'"
    unfolding while_post_def by blast
  from grows_allocates[OF g1 this] show ?thesis .
qed

lemma takes_count:
  assumes "takes st g Pos st'"
  shows "NumSuperPages st' = NumSuperPages st"
proof -
  from assms obtain v where "store_state st (State_of st g) Pos v = st'\<lparr>TLS_PerSC := TLS_PerSC st\<rparr>"
    unfolding takes_def by blast
  from arg_cong[OF this, of NumSuperPages] show ?thesis by simp
qed

lemma Allocate_spec:
  assumes c: "consistent st" and a: "Allocate st Size = Some (Inr (p, st'))"
    and bound: "NumSuperPages st' 0 \<le> 2 ^ 20"
  shows "allocates st p st'"
proof -
  from a obtain SC SCD where sc: "SizeToSizeClass (SCDescr st) Size = Inr (SC, SCD)"
    by (auto simp: Allocate_def split: sum.splits)
  obtain SP Hint where tls: "TLS_PerSC st SC = (SP, Hint)" by (cases "TLS_PerSC st SC")
  show ?thesis
  proof (cases "SP = 0")
    case True
    with a sc tls have "AllocateSlower st Size = Some (Inr (p, st'))"
      by (simp add: Allocate_def)
    from AllocateSlower_spec[OF c this bound] show ?thesis .
  next
    case False
    with tls have nz: "fst (TLS_PerSC st SC) \<noteq> 0" by simp
    then have "\<not> fresh st" by (auto simp: fresh_def)
    with c have st: "started st" by (simp add: consistent_def)
    from st nz obtain g where g: "is_mapped st g" and sp: "fst (TLS_PerSC st SC) = SPA g"
      and m: "SuperPageMetadata st g = word_of_nat SC" and scl: "SC < kNumSizeClasses"
      unfolding started_def by blast
    from sp tls have SP: "SP = SPA g" by simp
    note t = started_table[OF st sc]
    from a sc tls False obtain Res Hint' st2 where
      ta: "TryAllocate st (SPA g) (DataOnlyScopeLevel st \<noteq> 0) SCD Hint = Inr (Res, Hint', st2)"
      by (auto simp: Allocate_def SP split: sum.splits)
    show ?thesis
    proof (cases "Res = 0")
      case r: False
      with a sc tls False ta have e: "p = Res"
        "st' = st2\<lparr>TLS_PerSC := (TLS_PerSC st2)(SC := (SPA g, Hint'))\<rparr>"
        by (simp_all add: Allocate_def SP)
      from TryAllocate_allocates[OF st g m scl t(2) ta r, of Hint'] show ?thesis
        by (simp add: e)
    next
      case r: True
      from TryAllocate_mapped[OF st g m scl t(2) ta] r have "st2 = st" by simp
      with a sc tls False ta r have "AllocateSlower st Size = Some (Inr (p, st'))"
        by (simp add: Allocate_def SP)
      from AllocateSlower_spec[OF c this bound] show ?thesis .
    qed
  qed
qed

section \<open>Runs of Allocate calls\<close>

lemma load_state_cong:
  assumes "Mem st' = Mem st" "SecondRangeMeta st' = SecondRangeMeta st"
  shows "load_state st' S i = load_state st S i"
  using assms by (cases S) (simp_all add: load_state_def)

lemma takes_fields:
  assumes "takes st g Pos st'"
  shows "\<exists>v. (v = USED_MIXED \<or> v = USED_DATA) \<and>
    (\<forall>S i. load_state st' S i = load_state (store_state st (State_of st g) Pos v) S i)"
    and "SuperPageMetadata st' = SuperPageMetadata st" and "SCDescr st' = SCDescr st"
    and "NumSuperPages st' = NumSuperPages st" and "Config st' = Config st"
proof -
  from assms obtain v where v: "v = USED_MIXED \<or> v = USED_DATA"
    and e: "store_state st (State_of st g) Pos v = st'\<lparr>TLS_PerSC := TLS_PerSC st\<rparr>"
    unfolding takes_def by blast
  have "load_state st' S i = load_state (store_state st (State_of st g) Pos v) S i" for S i
    by (rule load_state_cong) (simp_all add: e)
  with v show "\<exists>v. (v = USED_MIXED \<or> v = USED_DATA) \<and>
    (\<forall>S i. load_state st' S i = load_state (store_state st (State_of st g) Pos v) S i)" by blast
  show "SuperPageMetadata st' = SuperPageMetadata st" "SCDescr st' = SCDescr st"
    "NumSuperPages st' = NumSuperPages st" "Config st' = Config st"
    using arg_cong[OF e, of SuperPageMetadata] arg_cong[OF e, of SCDescr]
      arg_cong[OF e, of NumSuperPages] arg_cong[OF e, of Config] by simp_all
qed

lemma takes_mapped: "takes st g Pos st' \<Longrightarrow> is_mapped st' g' = is_mapped st g'"
  by (simp add: is_mapped_def takes_fields(4))

lemma takes_SCD_of: "takes st g Pos st' \<Longrightarrow> SCD_of st' g' = SCD_of st g'"
  by (simp add: SCD_of_def takes_fields(2,3))

lemma takes_State_of: "takes st g Pos st' \<Longrightarrow> State_of st' g' = State_of st g'"
  by (simp add: State_of_def takes_SCD_of)

lemma takes_ChunkState_self:
  assumes t: "takes st g Pos st'"
  shows "\<exists>v. (v = USED_MIXED \<or> v = USED_DATA) \<and>
             ChunkState st' (SPA g + Pos * ChunkSize (SCD_of st g)) = Inr v"
    and "ChunkState st (SPA g + Pos * ChunkSize (SCD_of st g)) = Inr AVAILABLE"
proof -
  from t have st: "started st" and st': "started st'" and g: "is_mapped st g"
    and pos: "Pos < NumChunks (SCD_of st g)" and av: "load_state st (State_of st g) Pos = AVAILABLE"
    by (simp_all add: takes_def)
  from ChunkState_chunk[OF st g pos] av
  show "ChunkState st (SPA g + Pos * ChunkSize (SCD_of st g)) = Inr AVAILABLE" by simp
  have g': "is_mapped st' g" using g by (simp add: takes_mapped[OF t])
  have pos': "Pos < NumChunks (SCD_of st' g)" using pos by (simp add: takes_SCD_of[OF t])
  from takes_fields(1)[OF t] obtain v where v: "v = USED_MIXED \<or> v = USED_DATA"
    and l: "\<And>S i. load_state st' S i = load_state (store_state st (State_of st g) Pos v) S i"
    by blast
  from ChunkState_chunk[OF st' g' pos']
  have "ChunkState st' (SPA g + Pos * ChunkSize (SCD_of st g)) = Inr v"
    by (simp add: takes_SCD_of[OF t] takes_State_of[OF t] l)
  with v show "\<exists>v. (v = USED_MIXED \<or> v = USED_DATA) \<and>
             ChunkState st' (SPA g + Pos * ChunkSize (SCD_of st g)) = Inr v" by blast
qed

lemma takes_ChunkState_other:
  assumes t: "takes st g Pos st'" and b: "mapped_addr st b"
    and ne: "b \<noteq> SPA g + Pos * ChunkSize (SCD_of st g)"
  shows "ChunkState st' b = ChunkState st b"
proof -
  from t have st: "started st" and st': "started st'" and g: "is_mapped st g"
    and pos: "Pos < NumChunks (SCD_of st g)"
    by (simp_all add: takes_def)
  from mapped_addr_SPA[OF b] obtain g' x where g': "is_mapped st g'" and x: "x < kSuperPageSize"
    and bx: "b = SPA g' + x" by blast
  have g'': "is_mapped st' g'" using g' by (simp add: takes_mapped[OF t])
  from takes_fields(1)[OF t] obtain v where
    l: "\<And>S i. load_state st' S i = load_state (store_state st (State_of st g) Pos v) S i"
    by blast
  have "load_state st' (State_of st g') Idx = load_state st (State_of st g') Idx"
    if i: "ComputeStatePtr (SPA g' + x) (SCD_of st g') = Inr Idx" for Idx
  proof -
    from ComputeStatePtr_Inr[OF i] have il: "Idx < NumChunks (SCD_of st g')"
      and ix: "Idx * ChunkSize (SCD_of st g') = x" using SPA_mod[OF x, of g'] by simp_all
    have "shift_ptr (State_of st g) Pos \<noteq> shift_ptr (State_of st g') Idx"
    proof
      assume "shift_ptr (State_of st g) Pos = shift_ptr (State_of st g') Idx"
      from state_byte_inj[OF st g g' pos il this] ix bx ne show False by simp
    qed
    then show ?thesis by (simp add: l load_store_state)
  qed
  then show ?thesis
    unfolding bx ChunkState_mapped[OF st g' x] ChunkState_mapped[OF st' g'' x]
      takes_SCD_of[OF t] takes_State_of[OF t]
    by (auto split: sum.splits)
qed

lemma allocates_effect:
  assumes c: "consistent st" and al: "allocates st p st'"
  defines "a \<equiv> ApplyAddressTag (Config st) p 0"
  shows "started st'" "Config st' = Config st" "in_use st' a"
    "mapped_addr st a \<Longrightarrow> ChunkState st a = Inr AVAILABLE"
    "\<And>b. mapped_addr st b \<Longrightarrow> mapped_addr st' b"
    "\<And>b. mapped_addr st b \<Longrightarrow> b \<noteq> a \<Longrightarrow> ChunkState st' b = ChunkState st b"
    "a mod 16 = 0" "kAllocatorSpace \<le> a" "a < kAllocatorSpace + kAllocatorSize"
    "\<exists>Tag. p = ApplyAddressTag (Config st) a Tag"
proof -
  from al obtain st1 g Pos Tag where gr: "grows st st1" and t: "takes st1 g Pos st'"
    and p: "p = ApplyAddressTag (Config st) (SPA g + Pos * ChunkSize (SCD_of st1 g)) Tag"
    unfolding allocates_def by blast
  let ?a = "SPA g + Pos * ChunkSize (SCD_of st1 g)"
  from t have st1: "started st1" and st': "started st'" and g: "is_mapped st1 g"
    and pos: "Pos < NumChunks (SCD_of st1 g)"
    by (simp_all add: takes_def)
  note cl = started_SCD_of[OF st1 g]
  from wf_SCD_chunk_bound[OF cl(2) pos]
  have b: "Pos * ChunkSize (SCD_of st1 g) < kSuperPageSize" by simp
  have lo: "kAllocatorSpace \<le> ?a" by (simp add: SPA_def)
  have hi: "?a < kAllocatorSpace + kAllocatorSize"
    using SPA_lt[OF cl(1)] b by simp
  have a: "a = ?a" unfolding a_def p by (rule untag_tagged[OF lo hi])
  show "started st'" by (rule st')
  show cfg: "Config st' = Config st"
    using gr takes_fields(5)[OF t] by (simp add: grows_def)
  show "kAllocatorSpace \<le> a" "a < kAllocatorSpace + kAllocatorSize" using lo hi a by simp_all
  show "\<exists>Tag. p = ApplyAddressTag (Config st) a Tag" using p a by blast
  have "ChunkSize (SCD_of st1 g) mod 16 = 0" by (simp add: ChunkSize_def)
  moreover have "SPA g mod 16 = 0" by (simp add: SPA_def kAllocatorSpace_def kSuperPageSize_def)
  ultimately show "a mod 16 = 0" unfolding a by (simp add: mod_add_eq[symmetric] mod_mult_right_eq[symmetric] del: mod_add_eq mod_mult_right_eq)
  have ma: "mapped_addr st1 ?a" using g b by (simp add: mapped_addr_SPA_iff)
  have m': "mapped_addr st' x = mapped_addr st1 x" for x
    by (simp add: mapped_addr_def takes_mapped[OF t])
  from takes_ChunkState_self[OF t] ma show "in_use st' a"
    unfolding in_use_def a m' by blast
  have m1: "mapped_addr st x \<Longrightarrow> mapped_addr st1 x" for x
    using gr by (auto simp: mapped_addr_def intro: grows_mapped)
  show "mapped_addr st b \<Longrightarrow> mapped_addr st' b" for b
    by (simp add: m' m1)
  have started_if_mapped: "started st" if "mapped_addr st x" for x
  proof -
    from that have "\<not> fresh st" by (auto simp: fresh_def mapped_addr_def is_mapped_def)
    with c show ?thesis by (simp add: consistent_def)
  qed
  show "ChunkState st a = Inr AVAILABLE" if m: "mapped_addr st a"
    using grows_ChunkState[OF started_if_mapped[OF m] gr m] takes_ChunkState_self(2)[OF t]
    by (simp add: a)
  show "ChunkState st' b = ChunkState st b" if m: "mapped_addr st b" and ne: "b \<noteq> a" for b
    using grows_ChunkState[OF started_if_mapped[OF m] gr m]
      takes_ChunkState_other[OF t m1[OF m]] ne by (simp add: a)
qed

lemma AllocateSlower_count:
  assumes "AllocateSlower st Size = Some (Inr (p, st'))"
  shows "NumSuperPages st 0 \<le> NumSuperPages st' 0"
proof -
  obtain T where T: "InitAll = Some T" using InitAll_Some by blast
  define st1 where "st1 =
    (if TLS_Rand st = 0 then
       (if InitAllOnce st then st\<lparr>TLS_Rand := word_of_nat (pthread_self_val st)\<rparr>
        else st\<lparr>SCDescr := T, InitAllOnce := True,
                TLS_Rand := word_of_nat (pthread_self_val st)\<rparr>)
     else st)"
  have n: "NumSuperPages st1 = NumSuperPages st" by (simp add: st1_def)
  have "(case SizeToSizeClass (SCDescr st1) Size of
               Inl f \<Rightarrow> Some (Inl f)
             | Inr (SC, SCD) \<Rightarrow> AllocateSlower_while Size SC SCD st1) = Some (Inr (p, st'))"
    using assms unfolding AllocateSlower_def st1_def
    by (auto simp: T split: if_splits)
  then obtain SC SCD where w: "AllocateSlower_while Size SC SCD st1 = Some (Inr (p, st'))"
    by (auto split: sum.splits)
  from AllocateSlower_while_spec[OF w] have "NumSuperPages st1 0 \<le> NumSuperPages st' 0"
    unfolding while_post_def by blast
  then show ?thesis by (simp add: n)
qed

lemma Allocate_count:
  assumes a: "Allocate st Size = Some (Inr (p, st'))"
  shows "NumSuperPages st 0 \<le> NumSuperPages st' 0"
proof -
  from a obtain SC SCD where sc: "SizeToSizeClass (SCDescr st) Size = Inr (SC, SCD)"
    by (auto simp: Allocate_def split: sum.splits)
  obtain SP Hint where tls: "TLS_PerSC st SC = (SP, Hint)" by (cases "TLS_PerSC st SC")
  show ?thesis
  proof (cases "SP = 0")
    case True
    with a sc tls have "AllocateSlower st Size = Some (Inr (p, st'))"
      by (simp add: Allocate_def)
    from AllocateSlower_count[OF this] show ?thesis .
  next
    case False
    from a sc tls False obtain Res Hint' st2 where
      ta: "TryAllocate st SP (DataOnlyScopeLevel st \<noteq> 0) SCD Hint = Inr (Res, Hint', st2)"
      by (auto simp: Allocate_def split: sum.splits)
    note n2 = TryAllocate_count[OF ta]
    show ?thesis
    proof (cases "Res = 0")
      case r: False
      with a sc tls False ta have "st' = st2\<lparr>TLS_PerSC := (TLS_PerSC st2)(SC := (SP, Hint'))\<rparr>"
        by (simp_all add: Allocate_def)
      with n2 show ?thesis by simp
    next
      case r: True
      with a sc tls False ta r have "AllocateSlower st2 Size = Some (Inr (p, st'))"
        by (simp add: Allocate_def)
      from AllocateSlower_count[OF this] n2 show ?thesis by simp
    qed
  qed
qed

lemma run_calls_Cons_Inr:
  assumes "run_calls st (c # cs) = Some (Inr (ps, st'))"
  obtains r st1 ps' where "do_call st c = Some (Inr (r, st1))"
    "run_calls st1 cs = Some (Inr (ps', st'))" "ps = (case r of None \<Rightarrow> ps' | Some p \<Rightarrow> p # ps')"
  using assms by (auto split: option.splits sum.splits)

lemma in_use_allocates:
  assumes c: "consistent st" and al: "allocates st p st'" and b: "in_use st b"
  shows "in_use st' b" "b \<noteq> ApplyAddressTag (Config st) p 0"
proof -
  note e = allocates_effect[OF c al]
  from b have m: "mapped_addr st b" and u: "ChunkState st b = Inr USED_MIXED \<or> ChunkState st b = Inr USED_DATA"
    by (simp_all add: in_use_def)
  show ne: "b \<noteq> ApplyAddressTag (Config st) p 0"
  proof
    assume "b = ApplyAddressTag (Config st) p 0"
    with e(4) m u show False by (auto simp: USED_MIXED_def USED_DATA_def AVAILABLE_def)
  qed
  from e(5)[OF m] e(6)[OF m ne] u show "in_use st' b" by (simp add: in_use_def)
qed

lemma run_Allocate_invariant:
  assumes "consistent st" "run_calls st (map CallAllocate sizes) = Some (Inr (ps, st'))"
    "NumSuperPages st' 0 \<le> 2 ^ 20"
  shows "distinct (map (\<lambda>p. ApplyAddressTag (Config st) p 0) ps) \<and>
         (\<forall>b. in_use st b \<longrightarrow> in_use st' b \<and> b \<notin> (\<lambda>p. ApplyAddressTag (Config st) p 0) ` set ps) \<and>
         NumSuperPages st 0 \<le> NumSuperPages st' 0"
  using assms
proof (induction sizes arbitrary: st ps)
  case Nil
  then show ?case by simp
next
  case (Cons n ns)
  from Cons.prems(2) obtain p st1 ps' where a: "Allocate st n = Some (Inr (p, st1))"
    and r: "run_calls st1 (map CallAllocate ns) = Some (Inr (ps', st'))" and ps: "ps = p # ps'"
    by (auto split: option.splits sum.splits)
  have cnt0: "NumSuperPages st 0 \<le> NumSuperPages st1 0" by (rule Allocate_count[OF a])
  have cnt1: "NumSuperPages st1 0 \<le> NumSuperPages st' 0"
    using r Cons.prems(3)
  proof (induction ns arbitrary: st1 ps')
    case Nil then show ?case by simp
  next
    case (Cons m ms)
    from Cons.prems(1) obtain q st2 qs where "Allocate st1 m = Some (Inr (q, st2))"
      "run_calls st2 (map CallAllocate ms) = Some (Inr (qs, st'))"
      by (auto split: option.splits sum.splits)
    from Allocate_count[OF this(1)] Cons.IH[OF this(2) Cons.prems(2)] show ?case by simp
  qed
  have b1: "NumSuperPages st1 0 \<le> 2 ^ 20" using cnt1 Cons.prems(3) by simp
  from Allocate_spec[OF Cons.prems(1) a b1] have al: "allocates st p st1" .
  note e = allocates_effect[OF Cons.prems(1) al]
  have c1: "consistent st1" using e(1) by (simp add: consistent_def)
  from Cons.IH[OF c1 r Cons.prems(3)] e(2)
  have IH: "distinct (map (\<lambda>p. ApplyAddressTag (Config st) p 0) ps')"
    "\<And>b. in_use st1 b \<Longrightarrow> in_use st' b \<and> b \<notin> (\<lambda>p. ApplyAddressTag (Config st) p 0) ` set ps'"
    by simp_all
  let ?a = "ApplyAddressTag (Config st) p 0"
  from IH(2)[OF e(3)] have "?a \<notin> (\<lambda>p. ApplyAddressTag (Config st) p 0) ` set ps'" by simp
  with IH(1) have "distinct (map (\<lambda>p. ApplyAddressTag (Config st) p 0) ps)" by (simp add: ps)
  moreover have "in_use st' b \<and> b \<notin> (\<lambda>p. ApplyAddressTag (Config st) p 0) ` set ps" if "in_use st b" for b
    using in_use_allocates[OF Cons.prems(1) al that] IH(2)[of b] by (simp add: ps)
  ultimately show ?case using cnt0 cnt1 by simp
qed

text \<open>
  As long as the first range stays within its \<open>2 ^ 20\<close> super pages: in a run of
  \<open>Allocate\<close> calls that starts in a consistent state, the pointers returned are
  pairwise distinct, and so are the addresses of their chunks (the pointers with the
  address tag removed).
\<close>

theorem Allocate_pointers_distinct:
  assumes "consistent st"
    and "run_calls st (map CallAllocate sizes) = Some (Inr (ps, st'))"
    and "NumSuperPages st' 0 \<le> 2 ^ 20"
  shows "distinct ps \<and> distinct (map (\<lambda>p. ApplyAddressTag (Config st) p 0) ps)"
proof -
  from run_Allocate_invariant[OF assms]
  have d: "distinct (map (\<lambda>p. ApplyAddressTag (Config st) p 0) ps)" by simp
  then have "distinct ps" by (simp add: distinct_map)
  with d show ?thesis by simp
qed

lemma consistent_zero_Allocator: "consistent (zero_Allocator cfg tid)"
  by (simp add: consistent_def fresh_def zero_Allocator_def)

lemma started_one_used_chunk: "started (one_used_chunk cfg tag)"
proof -
  have m: "is_mapped (one_used_chunk cfg tag) g \<longleftrightarrow> g = 0" for g
    by (auto simp: is_mapped_def one_used_chunk_fields)
  have z: "SPA 0 = kAllocatorSpace" by (simp add: SPA_def)
  show ?thesis
    unfolding started_def m
    by (auto simp: one_used_chunk_fields InitAll_Some[symmetric] SCDescr_0 kNumSizeClasses_67 z
        split: if_splits)
qed

lemma TryAllocate_class0:
  fixes st :: Allocator
  defines "S \<equiv> InSuperPage (kAllocatorSpace + kSuperPageSize - 30848)"
  assumes al: "\<not> UseAliases (Config st)"
    and used: "\<forall>j<k. bit (load_state st S j) 0" and av: "load_state st S k = AVAILABLE"
    and k: "k < 8" and h: "Hint < 8"
  shows "TryAllocate st kAllocatorSpace False (the InitAll ! 0) Hint =
           Inr (kAllocatorSpace + k * 16, k + 1, store_state st S k USED_MIXED)"
proof -
  let ?SCD = "the InitAll ! 0"
  have SS: "State kAllocatorSpace (NumChunks ?SCD) (RangeNum ?SCD) = S"
    by (simp add: SCDescr_0 State_class0 S_def)
  have N: "NumChunks ?SCD = 30840" by (simp add: SCDescr_0)
  have f: "FindByte_PEXT (load_state st S) 0 30840 Hint (\<lambda>Pos. load_state st S Pos = AVAILABLE) = Inr k"
    by (rule FindByte_PEXT_lowest) (use used av k h in \<open>simp_all add: AVAILABLE_def\<close>)
  have f': "FindByte_PEXT (load_state st (State kAllocatorSpace (NumChunks ?SCD) (RangeNum ?SCD))) AVAILABLE
             (NumChunks ?SCD) Hint
             (\<lambda>Pos. load_state st (State kAllocatorSpace (NumChunks ?SCD) (RangeNum ?SCD)) Pos = AVAILABLE)
            = Inr k"
    unfolding SS using f by (simp add: SCDescr_0 AVAILABLE_def)
  have mine: "FixedShadow_IsMine kAllocatorSpace (kAllocatorSize div 2) (kAllocatorSpace + k * 16)"
    using k by (simp add: FixedShadow_IsMine_def kAllocatorSize_def)
  have g: "\<exists>t. GetMemoryTag (store_state st S' i v) (kAllocatorSpace + k * 16) = Inr t" for S' i v
    unfolding GetMemoryTag_def using mine by simp
  have ap: "ApplyAddressTag (Config st) a t = a" for a t
    using al by (simp add: ApplyAddressTag_def)
  have ad: "AddressOfChunk kAllocatorSpace i ?SCD = kAllocatorSpace + i * 16" for i
    by (simp add: AddressOfChunk_def ChunkSize_def SCDescr_0)
  have "TryAllocate st kAllocatorSpace False ?SCD Hint =
          (let st' = store_state st (State kAllocatorSpace (NumChunks ?SCD) (RangeNum ?SCD)) k
                        (if False then USED_DATA else USED_MIXED)
            in case GetMemoryTag st' (AddressOfChunk kAllocatorSpace k ?SCD) of
                 Inl f \<Rightarrow> Inl f
               | Inr Tag \<Rightarrow>
                   Inr (ApplyAddressTag (Config st') (AddressOfChunk kAllocatorSpace k ?SCD) Tag, k + 1, st'))"
    by (rule TryAllocate_found[OF f']) (use k in \<open>simp_all add: N size_t_minus_1_def\<close>)
  moreover obtain t where "GetMemoryTag (store_state st S k USED_MIXED) (kAllocatorSpace + k * 16) = Inr t"
    using g by blast
  ultimately show ?thesis
    unfolding Let_def SS by (simp add: ap ad)
qed

lemma Allocate_class0:
  fixes st :: Allocator
  defines "S \<equiv> InSuperPage (kAllocatorSpace + kSuperPageSize - 30848)"
  assumes tab: "SCDescr st = the InitAll" and tls: "TLS_PerSC st 0 = (kAllocatorSpace, Hint)"
    and lvl: "DataOnlyScopeLevel st = 0"
    and al: "\<not> UseAliases (Config st)"
    and used: "\<forall>j<k. bit (load_state st S j) 0" and av: "load_state st S k = AVAILABLE"
    and k: "k < 8" and h: "Hint < 8" and n: "0 < n" "n \<le> 16"
  shows "Allocate st n =
           Some (Inr (kAllocatorSpace + k * 16,
                      (store_state st S k USED_MIXED)
                        \<lparr>TLS_PerSC := (TLS_PerSC st)(0 := (kAllocatorSpace, k + 1))\<rparr>))"
proof -
  have sc: "SizeToSizeClass (the InitAll) n = Inr (0, the InitAll ! 0)"
  proof -
    have "(n + 15) div 16 = 1" using n by simp
    then show ?thesis using n by (simp add: SizeToSizeClass_def kNumSizeClasses_67)
  qed
  have ne: "kAllocatorSpace \<noteq> 0" "kAllocatorSpace + k * 16 \<noteq> 0" by (simp_all add: kAllocatorSpace_def)
  note t = TryAllocate_class0[OF al used[unfolded S_def] av[unfolded S_def] k h, folded S_def]
  show ?thesis
    unfolding Allocate_def tab sc
    using ne by (simp add: tls lvl t)
qed

theorem Allocate_pointers_distinct_witness:
  "consistent (one_used_chunk plain_config 0) \<and>
   (\<exists>st'. run_calls (one_used_chunk plain_config 0) (map CallAllocate [1, 1]) =
             Some (Inr ([kAllocatorSpace + 16, kAllocatorSpace + 32], st')) \<and>
           NumSuperPages st' 0 \<le> 2 ^ 20) \<and>
   distinct [kAllocatorSpace + 16, kAllocatorSpace + 32]"
proof -
  let ?st = "one_used_chunk plain_config 0"
  let ?S = "InSuperPage (kAllocatorSpace + kSuperPageSize - 30848)"
  define st1 where "st1 = (store_state ?st ?S 1 USED_MIXED)\<lparr>TLS_PerSC := (TLS_PerSC ?st)(0 := (kAllocatorSpace, 1 + 1))\<rparr>"
  define st2 where "st2 = (store_state st1 ?S 2 USED_MIXED)\<lparr>TLS_PerSC := (TLS_PerSC st1)(0 := (kAllocatorSpace, 2 + 1))\<rparr>"
  have c: "consistent ?st" by (simp add: consistent_def started_one_used_chunk)
  have cfg: "\<not> UseAliases plain_config" by (simp add: plain_config_def)
  have a1: "Allocate ?st 1 = Some (Inr (kAllocatorSpace + 1 * 16, st1))"
    unfolding st1_def
    by (rule Allocate_class0[where Hint = 1])
       (simp_all add: one_used_chunk_fields cfg load_state_def AVAILABLE_def USED_MIXED_def)
  have u2: "\<forall>j<2. bit (load_state st1 ?S j) 0"
    by (auto simp: st1_def load_state_def store_state_def one_used_chunk_fields less_Suc_eq numeral_2_eq_2
        USED_MIXED_def)
  have v2: "load_state st1 ?S 2 = AVAILABLE"
    by (simp add: st1_def load_state_def store_state_def one_used_chunk_fields AVAILABLE_def)
  have a2: "Allocate st1 1 = Some (Inr (kAllocatorSpace + 2 * 16, st2))"
    unfolding st2_def
    by (rule Allocate_class0[where Hint = 2, OF _ _ _ _ u2 v2])
       (simp_all add: st1_def one_used_chunk_fields cfg)
  have r: "run_calls ?st (map CallAllocate [1, 1]) =
             Some (Inr ([kAllocatorSpace + 16, kAllocatorSpace + 32], st2))"
    by (simp add: a1 a2 del: One_nat_def)
  have b: "NumSuperPages st2 0 \<le> 2 ^ 20" by (simp add: st2_def st1_def one_used_chunk_fields)
  from Allocate_pointers_distinct[OF c r b] c r b show ?thesis by blast
qed

section \<open>A first range that outgrows its half of the region\<close>

lemma full_first_range_fields:
  shows "Config full_first_range = plain_config"
    "SCDescr full_first_range = the InitAll"
    "InitAllOnce full_first_range"
    "SuperPageMetadata full_first_range = (\<lambda>g. if g < 1048576 then 1 else if g = 1048576 then 28 else 0)"
    "SecondRangeMeta full_first_range = (\<lambda>_. 0)"
    "Mem full_first_range = (\<lambda>_. 0)"
    "NumSuperPages full_first_range = (\<lambda>R. if R = 0 then 1048576 else if R = 1 then 1 else 0)"
    "DataOnlyScopeLevel full_first_range = 0"
    "TLS_PerSC full_first_range = (\<lambda>SC. if SC = 28 then (SPA 1048576, 1)
                           else if SC = 1 then (SPA 1048575, 1) else (0, 0))"
    "TLS_Rand full_first_range = 1"
  by (simp_all add: full_first_range_def zero_Allocator_def)

lemma SCDescr_1_28:
  "RangeNum (the InitAll ! 1) = 0" "RangeNum (the InitAll ! Suc 0) = 0"
  "RangeNum (the InitAll ! 28) = 1" "NumChunks (the InitAll ! 28) = 512"
  "ChunkSizeDiv16 (the InitAll ! 28) = 64"
  by (simp_all add: InitAll_eq)

lemma SPA_second_range: "SPA 1048576 = kFirstSuperPage 1" "SPA 1048576 = 0x608000000000"
  "SPA 1048576 \<noteq> 0"
  by (simp_all add: kFirstSuperPage_def SPA_def kAllocatorSpace_def kAllocatorSize_def kSuperPageSize_def)

lemma started_full_first_range: "started full_first_range"
proof -
  have m: "is_mapped full_first_range g \<longleftrightarrow> g < 1048576 \<or> g = 1048576" for g
    by (auto simp: is_mapped_def full_first_range_fields)
  have cls: "unat (SuperPageMetadata full_first_range g) < kNumSizeClasses \<and>
             RangeNum (SCDescr full_first_range ! unat (SuperPageMetadata full_first_range g)) =
               (if g < 2 ^ 20 then 0 else 1)"
    if "is_mapped full_first_range g" for g
    using that unfolding m
    by (auto simp: full_first_range_fields SCDescr_1_28 kNumSizeClasses_67)
  have tls: "SC < kNumSizeClasses \<and>
             (\<exists>g. is_mapped full_first_range g \<and> fst (TLS_PerSC full_first_range SC) = SPA g \<and>
                  SuperPageMetadata full_first_range g = word_of_nat SC)"
    if "fst (TLS_PerSC full_first_range SC) \<noteq> 0" for SC
  proof -
    from that have "SC = 28 \<or> SC = 1"
      by (auto simp: full_first_range_fields split: if_splits)
    then show ?thesis
    proof
      assume "SC = 28"
      then show ?thesis
        by (intro conjI exI[of _ 1048576]) (simp_all add: m full_first_range_fields kNumSizeClasses_67)
    next
      assume "SC = 1"
      then show ?thesis
        by (intro conjI exI[of _ 1048575]) (simp_all add: m full_first_range_fields kNumSizeClasses_67)
    qed
  qed
  have "InitAllOnce full_first_range" "InitAll = Some (SCDescr full_first_range)"
    "NumSuperPages full_first_range 0 \<le> 2 ^ 20" "NumSuperPages full_first_range 1 \<le> 2 ^ 20"
    by (simp_all add: full_first_range_fields InitAll_Some[symmetric])
  with cls tls show ?thesis unfolding started_def by blast
qed

lemma SizeToSizeClass_1024: "SizeToSizeClass (the InitAll) 1024 = Inr (28, the InitAll ! 28)"
proof -
  have cs: "ChunkSize (the InitAll ! i) = SCArray ! i" if "i < 67" for i
  proof -
    have "map ChunkSize (the InitAll) ! i = SCArray ! i"
      using InitAll_ChunkSizes[OF InitAll_Some] by simp
    then show ?thesis using that by (simp add: length_the_InitAll)
  qed
  have small: "\<forall>x \<in> set (take 28 SCArray). x < 1024" by (simp add: SCArray_def)
  have lt: "ChunkSize (the InitAll ! i) < 1024" if "i < 28" for i
  proof -
    have "SCArray ! i = take 28 SCArray ! i" using that by simp
    moreover have "take 28 SCArray ! i \<in> set (take 28 SCArray)"
      by (rule nth_mem) (use that in \<open>simp add: SCArray_def\<close>)
    ultimately show ?thesis using small cs[of i] that by simp
  qed
  have "SizeToSizeClass_loop (the InitAll) 1024 0 = (28, the InitAll ! 28)"
    by (rule SizeToSizeClass_loop_first)
       (use lt cs[of 28] in \<open>simp_all add: kNumSizeClasses_67 SCArray_def\<close>)
  then show ?thesis by (simp add: SizeToSizeClass_def)
qed

lemma Allocate_full_first_range:
  "Allocate full_first_range 1024 =
     Some (Inr (SPA 1048576,
                (store_state full_first_range (InSecondRangeMeta 0) 0 USED_MIXED)
                  \<lparr>TLS_PerSC := (TLS_PerSC full_first_range)(28 := (SPA 1048576, 1))\<rparr>))"
proof -
  let ?st = full_first_range
  let ?SCD = "the InitAll ! 28"
  let ?SP = "SPA 1048576"
  have S: "State ?SP (NumChunks ?SCD) (RangeNum ?SCD) = InSecondRangeMeta 0"
    using SecondRangeMeta_Index_SPA[of 1048576]
    by (simp add: State_def SCDescr_1_28)
  have f: "FindByte_PEXT (load_state ?st (InSecondRangeMeta 0)) 0 512 1
             (\<lambda>Pos. load_state ?st (InSecondRangeMeta 0) Pos = AVAILABLE) = Inr 0"
    by (rule FindByte_PEXT_lowest)
       (simp_all add: load_state_def full_first_range_fields AVAILABLE_def)
  have f': "FindByte_PEXT (load_state ?st (State ?SP (NumChunks ?SCD) (RangeNum ?SCD))) AVAILABLE
             (NumChunks ?SCD) 1
             (\<lambda>Pos. load_state ?st (State ?SP (NumChunks ?SCD) (RangeNum ?SCD)) Pos = AVAILABLE) = Inr 0"
    unfolding S using f by (simp add: SCDescr_1_28 AVAILABLE_def)
  have "TryAllocate ?st ?SP False ?SCD 1 =
          (let st' = store_state ?st (State ?SP (NumChunks ?SCD) (RangeNum ?SCD)) 0
                        (if False then USED_DATA else USED_MIXED)
            in case GetMemoryTag st' (AddressOfChunk ?SP 0 ?SCD) of
                 Inl f \<Rightarrow> Inl f
               | Inr Tag \<Rightarrow>
                   Inr (ApplyAddressTag (Config st') (AddressOfChunk ?SP 0 ?SCD) Tag, 0 + 1, st'))"
    by (rule TryAllocate_found[OF f']) (simp_all add: SCDescr_1_28 size_t_minus_1_def)
  then have t: "TryAllocate ?st ?SP False ?SCD 1 =
             Inr (?SP, 1, store_state ?st (InSecondRangeMeta 0) 0 USED_MIXED)"
    unfolding S Let_def
    by (simp add: GetMemoryTag_def ApplyAddressTag_def
        full_first_range_fields plain_config_def AddressOfChunk_def)
  show ?thesis
    unfolding Allocate_def full_first_range_fields(2) SizeToSizeClass_1024
    using SPA_second_range(3) by (simp add: full_first_range_fields t del: One_nat_def)
qed

lemma AllocateSlower_while_unfold:
  assumes "NumSuperPages st (RangeNum SCD) = N" "N \<noteq> 0"
  shows "AllocateSlower_while Size SC SCD st =
     (case AllocateSlower_for SC SCD N (unat (snd (RandR (TLS_Rand st))) mod N) 0
             (st\<lparr>TLS_Rand := fst (RandR (TLS_Rand st))\<rparr>) of
        Inl f \<Rightarrow> Some (Inl f)
      | Inr (Res, st1) \<Rightarrow>
          if Res \<noteq> 0 then Some (Inr (Res, st1))
          else (case AllocateSuperPage st1 Size of
                  Inl f \<Rightarrow> Some (Inl f)
                | Inr st2 \<Rightarrow>
                    AllocateSlower_while Size SC SCD
                      (st2\<lparr>TLS_PerSC := (TLS_PerSC st2)(SC := (fst (TLS_PerSC st2 SC), 0))\<rparr>)))"
  by (subst AllocateSlower_while.simps) (simp add: assms case_prod_beta Let_def)

lemma AllocateSlower_for_skip:
  assumes "\<forall>i. I \<le> i \<and> i < N \<longrightarrow>
             SuperPageMetadata st (kMeta_Index (RangeNum SCD) (rotate_idx N Offset i)) \<noteq> word_of_nat SC"
  shows "AllocateSlower_for SC SCD N Offset I st = Inr (0, st)"
  using assms
proof (induction SC SCD N Offset I st rule: AllocateSlower_for.induct)
  case (1 SC SCD N Offset I st)
  show ?case
  proof (cases "I < N")
    case False
    then show ?thesis by (subst AllocateSlower_for.simps) simp
  next
    case True
    have ne: "SuperPageMetadata st (kMeta_Index (RangeNum SCD) (rotate_idx N Offset I)) \<noteq> word_of_nat SC"
      using "1.prems" True by simp
    have "AllocateSlower_for SC SCD N Offset (I + 1) st = Inr (0, st)"
      by (rule "1.IH"(2)[OF True refl ne]) (use "1.prems" in simp)
    then show ?thesis
      by (subst AllocateSlower_for.simps) (simp add: True ne Let_def)
  qed
qed

lemma AllocateSlower_for_find:
  assumes "I \<le> J" "J < N"
    and "\<forall>i. I \<le> i \<and> i < J \<longrightarrow>
             SuperPageMetadata st (kMeta_Index (RangeNum SCD) (rotate_idx N Offset i)) \<noteq> word_of_nat SC"
    and "SuperPageMetadata st (kMeta_Index (RangeNum SCD) (rotate_idx N Offset J)) = word_of_nat SC"
    and "GetSuperPage (RangeNum SCD) (rotate_idx N Offset J) = Inr SP"
    and "TryAllocate (st\<lparr>TLS_PerSC := (TLS_PerSC st)(SC := (SP, snd (TLS_PerSC st SC)))\<rparr>) SP
           (DataOnlyScopeLevel st \<noteq> 0) SCD (snd (TLS_PerSC st SC)) = Inr (Res, Hint, st')"
    and "Res \<noteq> 0"
  shows "AllocateSlower_for SC SCD N Offset I st =
           Inr (Res, st'\<lparr>TLS_PerSC := (TLS_PerSC st')(SC := (SP, Hint))\<rparr>)"
  using assms
proof (induction SC SCD N Offset I st rule: AllocateSlower_for.induct)
  case (1 SC SCD N Offset I st)
  have lt: "I < N" using "1.prems"(1,2) by simp
  show ?case
  proof (cases "I = J")
    case True
    have r: "(Res = 0) = False" using "1.prems"(7) by simp
    have e: "DataOnlyScopeLevel (st\<lparr>TLS_PerSC := X\<rparr>) = DataOnlyScopeLevel st"
      "snd (TLS_PerSC (st\<lparr>TLS_PerSC := (TLS_PerSC st)(SC := (SP, snd (TLS_PerSC st SC)))\<rparr>) SC)
         = snd (TLS_PerSC st SC)" for X
      by simp_all
    show ?thesis
      by (subst AllocateSlower_for.simps)
         (simp only: True "1.prems"(2,4,5,6) Let_def if_True sum.case prod.case r simp_thms e)
  next
    case False
    then have le: "I + 1 \<le> J" using "1.prems"(1) by simp
    have ne: "SuperPageMetadata st (kMeta_Index (RangeNum SCD) (rotate_idx N Offset I)) \<noteq> word_of_nat SC"
      using "1.prems"(1,3) False by simp
    have "AllocateSlower_for SC SCD N Offset (I + 1) st =
            Inr (Res, st'\<lparr>TLS_PerSC := (TLS_PerSC st')(SC := (SP, Hint))\<rparr>)"
      by (rule "1.IH"(2)[OF lt refl ne le "1.prems"(2) _ "1.prems"(4-7)])
         (use "1.prems"(3) in simp)
    then show ?thesis
      by (subst AllocateSlower_for.simps) (simp add: lt ne Let_def)
  qed
qed

lemma for_each_SeedTag_no_shadow:
  assumes "\<not> UseShadow (Config st)"
  shows "\<exists>st'. for_each (SeedTag This CS) xs st = Inr st'"
  using assms
proof (induction xs arbitrary: st)
  case Nil
  show ?case by simp
next
  case (Cons x xs)
  obtain ns v where r: "RandR (TLS_Rand st) = (ns, v)" by (cases "RandR (TLS_Rand st)")
  have s: "SeedTag This CS x st = Inr (st\<lparr>TLS_Rand := ns\<rparr>)"
    using Cons.prems by (simp add: SeedTag_def r SetMemoryTag_def)
  have "\<not> UseShadow (Config (st\<lparr>TLS_Rand := ns\<rparr>))" using Cons.prems by simp
  from Cons.IH[OF this] show ?case by (simp add: s)
qed

lemma AllocateSuperPage_no_shadow:
  assumes "\<not> UseShadow (Config st)"
    and "SizeToSizeClass (SCDescr st) Size = Inr (SC, SCD)"
    and "GetSuperPage (RangeNum SCD) (NumSuperPages st (RangeNum SCD)) = Inr Res"
  shows "\<exists>st'. AllocateSuperPage st Size = Inr st'"
proof -
  from GetSuperPage_SPA[OF assms(3)]
  obtain g where res: "Res = SPA g" and g: "g < 2 ^ 21" by blast
  have mine: "FixedShadow_IsMine kAllocatorSpace kAllocatorSize Res"
    using IsMine_SPA[OF g, of 0] by (simp add: res kSuperPageSize_def)
  have al: "Res mod kSuperPageSize = 0"
    using SPA_mod[of 0 g] by (simp add: res kSuperPageSize_def)
  let ?st1 = "mmap_fixed st Res kSuperPageSize"
  let ?st2 = "?st1\<lparr>SuperPageMetadata :=
                  (SuperPageMetadata ?st1)(FixedShadow_Index kAllocatorSpace kSuperPageSize Res := word_of_nat SC)\<rparr>"
  have ss: "SetSizeClass ?st1 Res (word_of_nat SC) = Inr ?st2"
    using mine al by (simp add: SetSizeClass_def)
  have "\<not> UseShadow (Config ?st2)" using assms(1) by (simp add: mmap_fixed_def)
  from for_each_SeedTag_no_shadow[OF this]
  obtain st3 where "for_each (SeedTag Res (ChunkSize SCD))
      [0..<(if ChunkSize SCD = 0 then 0 else NumChunks SCD)] ?st2 = Inr st3" by blast
  then show ?thesis
    unfolding AllocateSuperPage_def by (simp add: assms(2,3) ss Let_def)
qed

lemma State_class0_at:
  "State This 30840 0 = InSuperPage (This + kSuperPageSize - 30848)"
  by (simp add: State_def SizeOfInlineMeta_def kStateArrayAlignment_def RoundUpTo_def)

lemma TryAllocate_class0_first:
  fixes st :: Allocator
  assumes al: "\<not> UseAliases (Config st)" and sh: "\<not> UseShadow (Config st)"
    and av: "load_state st (InSuperPage (This + kSuperPageSize - 30848)) 0 = AVAILABLE"
  shows "TryAllocate st This False (the InitAll ! 0) 0 =
           Inr (This, 1, store_state st (InSuperPage (This + kSuperPageSize - 30848)) 0 USED_MIXED)"
proof -
  let ?SCD = "the InitAll ! 0"
  let ?S = "InSuperPage (This + kSuperPageSize - 30848)"
  have SS: "State This (NumChunks ?SCD) (RangeNum ?SCD) = ?S"
    by (simp add: SCDescr_0 State_class0_at)
  have f: "FindByte_PEXT (load_state st ?S) 0 30840 0 (\<lambda>Pos. load_state st ?S Pos = AVAILABLE) = Inr 0"
    by (rule FindByte_PEXT_lowest) (use av in \<open>simp_all add: AVAILABLE_def\<close>)
  have f': "FindByte_PEXT (load_state st (State This (NumChunks ?SCD) (RangeNum ?SCD))) AVAILABLE
             (NumChunks ?SCD) 0
             (\<lambda>Pos. load_state st (State This (NumChunks ?SCD) (RangeNum ?SCD)) Pos = AVAILABLE)
            = Inr 0"
    unfolding SS using f by (simp add: SCDescr_0 AVAILABLE_def)
  have "TryAllocate st This False ?SCD 0 =
          (let st' = store_state st (State This (NumChunks ?SCD) (RangeNum ?SCD)) 0
                        (if False then USED_DATA else USED_MIXED)
            in case GetMemoryTag st' (AddressOfChunk This 0 ?SCD) of
                 Inl f \<Rightarrow> Inl f
               | Inr Tag \<Rightarrow>
                   Inr (ApplyAddressTag (Config st') (AddressOfChunk This 0 ?SCD) Tag, 0 + 1, st'))"
    by (rule TryAllocate_found[OF f']) (simp_all add: SCDescr_0 size_t_minus_1_def)
  then show ?thesis
    unfolding SS Let_def
    using al sh by (simp add: GetMemoryTag_def ApplyAddressTag_def AddressOfChunk_def)
qed

lemma AllocateSlower_while_overflow:
  assumes sh: "\<not> UseShadow (Config st)" and al: "\<not> UseAliases (Config st)"
    and tab: "SCDescr st = the InitAll"
    and n0: "NumSuperPages st 0 = 1048576"
    and meta: "\<forall>g < 1048576. SuperPageMetadata st g \<noteq> 0"
    and lvl: "DataOnlyScopeLevel st = 0"
  shows "\<exists>st'. AllocateSlower_while 1 0 (the InitAll ! 0) st = Some (Inr (SPA 1048576, st'))"
proof -
  let ?SCD = "the InitAll ! 0"
  let ?P = "SPA 1048576"
  have R: "RangeNum ?SCD = 0" by (simp add: SCDescr_0)
  have gsp: "GetSuperPage 0 1048576 = Inr ?P"
    by (simp add: GetSuperPage_def kFirstSuperPage_def SPA_def kAllocatorSpace_def
        kAllocatorSize_def kSuperPageSize_def)
  define sta where "sta = st\<lparr>TLS_Rand := fst (RandR (TLS_Rand st))\<rparr>"
  define O1 where "O1 = unat (snd (RandR (TLS_Rand st))) mod 1048576"
  have O1: "O1 < 1048576" by (simp add: O1_def)
  have skip: "AllocateSlower_for 0 ?SCD 1048576 O1 0 sta = Inr (0, sta)"
  proof (rule AllocateSlower_for_skip, intro allI impI)
    fix i assume "0 \<le> i \<and> i < (1048576 :: nat)"
    then have "rotate_idx 1048576 O1 i < 1048576" using O1 by (auto simp: rotate_idx_def)
    then show "SuperPageMetadata sta (kMeta_Index (RangeNum ?SCD) (rotate_idx 1048576 O1 i)) \<noteq> word_of_nat 0"
      using meta by (simp add: R kMeta_Index_eq sta_def)
  qed
  have sc: "SizeToSizeClass (SCDescr sta) 1 = Inr (0, ?SCD)"
    by (simp add: sta_def tab SizeToSizeClass_1 del: One_nat_def)
  have gs: "GetSuperPage (RangeNum ?SCD) (NumSuperPages sta (RangeNum ?SCD)) = Inr ?P"
    using gsp by (simp add: R sta_def n0)
  have "\<not> UseShadow (Config sta)" using sh by (simp add: sta_def)
  from AllocateSuperPage_no_shadow[OF this sc gs]
  obtain stb where asp: "AllocateSuperPage sta 1 = Inr stb" by blast
  note shp = AllocateSuperPage_shape[OF sc asp]
  have nb: "NumSuperPages stb 0 = 1048577"
    using shp(2) by (simp add: R sta_def n0)
  have mb: "SuperPageMetadata stb = (SuperPageMetadata st)(1048576 := 0)"
    using shp(3) by (simp add: R sta_def n0)
  have memb: "Mem stb = (\<lambda>a. if ?P \<le> a \<and> a < ?P + kSuperPageSize then 0 else Mem st a)"
  proof -
    have "Mem sta = Mem st" "NumSuperPages sta 0 = 1048576" by (simp_all add: sta_def n0)
    with shp(4) show ?thesis by (simp add: R cong: if_cong)
  qed
  have cb: "Config stb = Config st" "SCDescr stb = SCDescr st" "DataOnlyScopeLevel stb = DataOnlyScopeLevel st"
    using shp(5,6,9) by (simp_all add: sta_def)
  define stc where "stc = stb\<lparr>TLS_PerSC := (TLS_PerSC stb)(0 := (fst (TLS_PerSC stb 0), 0))\<rparr>"
  define std where "std = stc\<lparr>TLS_Rand := fst (RandR (TLS_Rand stc))\<rparr>"
  define O2 where "O2 = unat (snd (RandR (TLS_Rand stc))) mod 1048577"
  have O2: "O2 < 1048577" by (simp add: O2_def)
  define J where "J = 1048576 - O2"
  define ste where "ste = std\<lparr>TLS_PerSC := (TLS_PerSC std)(0 := (?P, snd (TLS_PerSC std 0)))\<rparr>"
  have hint: "snd (TLS_PerSC std 0) = 0" by (simp add: std_def stc_def)
  have lvld: "DataOnlyScopeLevel std = 0" by (simp add: std_def stc_def cb lvl)
  have av: "load_state ste (InSuperPage (?P + kSuperPageSize - 30848)) 0 = AVAILABLE"
    by (simp add: load_state_def ste_def std_def stc_def memb AVAILABLE_def kSuperPageSize_def)
  have tr: "TryAllocate ste ?P False ?SCD 0 =
           Inr (?P, 1, store_state ste (InSuperPage (?P + kSuperPageSize - 30848)) 0 USED_MIXED)"
    by (rule TryAllocate_class0_first[OF _ _ av])
       (simp_all add: ste_def std_def stc_def cb al sh)
  have rJ: "rotate_idx 1048577 O2 J = 1048576"
    using O2 by (simp add: rotate_idx_def J_def)
  have Pnz: "?P \<noteq> 0" by (simp add: SPA_def kAllocatorSpace_def)
  have find: "AllocateSlower_for 0 ?SCD 1048577 O2 0 std =
      Inr (?P, (store_state ste (InSuperPage (?P + kSuperPageSize - 30848)) 0 USED_MIXED)
                 \<lparr>TLS_PerSC := (TLS_PerSC (store_state ste (InSuperPage (?P + kSuperPageSize - 30848)) 0 USED_MIXED))
                                  (0 := (?P, 1))\<rparr>)"
  proof (rule AllocateSlower_for_find[where J = J])
    show "0 \<le> J" by simp
    show "J < 1048577" by (simp add: J_def)
    show "\<forall>i. 0 \<le> i \<and> i < J \<longrightarrow>
        SuperPageMetadata std (kMeta_Index (RangeNum ?SCD) (rotate_idx 1048577 O2 i)) \<noteq> word_of_nat 0"
    proof (intro allI impI)
      fix i assume "0 \<le> i \<and> i < J"
      then have "rotate_idx 1048577 O2 i < 1048576" by (auto simp: rotate_idx_def J_def)
      then show "SuperPageMetadata std (kMeta_Index (RangeNum ?SCD) (rotate_idx 1048577 O2 i)) \<noteq> word_of_nat 0"
        using meta by (simp add: R kMeta_Index_eq std_def stc_def mb)
    qed
    show "SuperPageMetadata std (kMeta_Index (RangeNum ?SCD) (rotate_idx 1048577 O2 J)) = word_of_nat 0"
      by (simp add: R kMeta_Index_eq rJ std_def stc_def mb)
    show "GetSuperPage (RangeNum ?SCD) (rotate_idx 1048577 O2 J) = Inr ?P"
      using gsp by (simp add: R rJ)
    show "TryAllocate (std\<lparr>TLS_PerSC := (TLS_PerSC std)(0 := (?P, snd (TLS_PerSC std 0)))\<rparr>) ?P
           (DataOnlyScopeLevel std \<noteq> 0) ?SCD (snd (TLS_PerSC std 0)) =
          Inr (?P, 1, store_state ste (InSuperPage (?P + kSuperPageSize - 30848)) 0 USED_MIXED)"
      unfolding hint lvld using tr by (simp add: ste_def hint)
    show "?P \<noteq> 0" by (rule Pnz)
  qed
  have u1: "AllocateSlower_while 1 0 ?SCD st = AllocateSlower_while 1 0 ?SCD stc"
    by (subst AllocateSlower_while_unfold[where N = 1048576])
       (simp_all add: R n0 skip[unfolded sta_def O1_def] asp[unfolded sta_def] stc_def del: One_nat_def)
  have nc: "NumSuperPages stc (RangeNum ?SCD) = 1048577" by (simp add: R stc_def nb)
  have u2: "AllocateSlower_while 1 0 ?SCD stc =
      Some (Inr (?P, (store_state ste (InSuperPage (?P + kSuperPageSize - 30848)) 0 USED_MIXED)
                 \<lparr>TLS_PerSC := (TLS_PerSC (store_state ste (InSuperPage (?P + kSuperPageSize - 30848)) 0 USED_MIXED))
                                  (0 := (?P, 1))\<rparr>))"
    by (subst AllocateSlower_while_unfold[OF nc])
       (simp_all add: find[unfolded std_def O2_def] Pnz del: One_nat_def)
  show ?thesis unfolding u1 u2 by blast
qed

text \<open>
  C8. The code does not keep the pointers of a run of \<open>Allocate\<close> calls distinct once
  the first range has used up its half of the region. \<open>GetSuperPage\<close> checks the address
  against the end of the whole region only, so super page \<open>2 ^ 20\<close> of the first range
  is the first super page of the second range. In the consistent state
  \<open>full_first_range\<close>, \<open>Allocate(1024)\<close> returns the first chunk of that super page,
  \<open>0x608000000000\<close>; then \<open>Allocate(1)\<close> finds no super page of the 16-byte class,
  \<open>AllocateSuperPage\<close> maps a new one over it and records the 16-byte class for it, and
  the call returns \<open>0x608000000000\<close> again, while the first pointer has not been freed.
\<close>

theorem Allocate_returns_live_pointer_again:
  "consistent full_first_range \<and>
   (\<exists>ps st'. run_calls full_first_range [CallAllocate 1024, CallAllocate 1] = Some (Inr (ps, st')) \<and>
      ps = [0x608000000000, 0x608000000000] \<and> \<not> distinct ps)"
proof -
  let ?P = "SPA 1048576"
  define s1 where "s1 = (store_state full_first_range (InSecondRangeMeta 0) 0 USED_MIXED)
                  \<lparr>TLS_PerSC := (TLS_PerSC full_first_range)(28 := (?P, 1))\<rparr>"
  have a1: "Allocate full_first_range 1024 = Some (Inr (?P, s1))"
    unfolding s1_def by (rule Allocate_full_first_range)
  have f: "\<not> UseShadow (Config s1)" "\<not> UseAliases (Config s1)" "SCDescr s1 = the InitAll"
    "NumSuperPages s1 0 = 1048576" "\<forall>g < 1048576. SuperPageMetadata s1 g \<noteq> 0"
    "DataOnlyScopeLevel s1 = 0" "TLS_PerSC s1 0 = (0, 0)" "TLS_Rand s1 \<noteq> 0"
    by (simp_all add: s1_def full_first_range_fields plain_config_def store_state_def)
  from AllocateSlower_while_overflow[OF f(1-6)]
  obtain s2 where w: "AllocateSlower_while 1 0 (the InitAll ! 0) s1 = Some (Inr (?P, s2))" by blast
  have a2: "Allocate s1 1 = Some (Inr (?P, s2))"
    unfolding Allocate_def f(3) SizeToSizeClass_1
    by (simp add: f(7) AllocateSlower_def f(8) f(3) SizeToSizeClass_1 w del: One_nat_def)
  have r: "run_calls full_first_range [CallAllocate 1024, CallAllocate 1] = Some (Inr ([?P, ?P], s2))"
    by (simp add: a1 a2 del: One_nat_def)
  have c: "consistent full_first_range" by (simp add: consistent_def started_full_first_range)
  have p: "?P = 0x608000000000" by (rule SPA_second_range(2))
  from c r show ?thesis unfolding p by simp
qed

section \<open>Freeing and scanning\<close>

lemma shift_ptr_0 [simp]: "shift_ptr l 0 = l"
  by (cases l) (simp_all add: shift_ptr_def)

lemma ChunkState_loc:
  "ChunkState st a = (case ChunkLoc st a of Inl f \<Rightarrow> Inl f | Inr l \<Rightarrow> Inr (load_state st l 0))"
  unfolding ChunkState_def ChunkLoc_def Let_def
  by (auto split: sum.splits simp: load_state_shift[symmetric])

lemma GetSCD_frame:
  assumes "SuperPageMetadata st' = SuperPageMetadata st" "SCDescr st' = SCDescr st"
  shows "GetSCD st' SP = GetSCD st SP"
  using assms by (simp add: GetSCD_def GetSizeClass_def)

lemma ChunkLoc_frame:
  assumes "SuperPageMetadata st' = SuperPageMetadata st" "SCDescr st' = SCDescr st"
  shows "ChunkLoc st' a = ChunkLoc st a"
  unfolding ChunkLoc_def GetSCD_frame[OF assms] by simp

lemma same_frame_refl: "same_frame st st"
  by (simp add: same_frame_def)

lemma same_frame_trans: "same_frame a b \<Longrightarrow> same_frame b c \<Longrightarrow> same_frame a c"
  by (simp add: same_frame_def)

lemma same_frame_mapped: "same_frame st st' \<Longrightarrow> is_mapped st' g = is_mapped st g"
  by (simp add: same_frame_def is_mapped_def)

lemma same_frame_mapped_addr: "same_frame st st' \<Longrightarrow> mapped_addr st' a = mapped_addr st a"
  by (simp add: mapped_addr_def same_frame_mapped)

lemma same_frame_consistent:
  assumes "same_frame st st'" "consistent st"
  shows "consistent st'"
proof -
  have m: "is_mapped st' g = is_mapped st g" for g by (rule same_frame_mapped[OF assms(1)])
  from assms(1) have "fresh st' = fresh st" by (simp add: fresh_def same_frame_def)
  moreover from assms(1) have "started st' = started st"
    unfolding started_def m by (simp add: same_frame_def)
  ultimately show ?thesis using assms(2) by (simp add: consistent_def)
qed

lemma same_frame_ChunkLoc: "same_frame st st' \<Longrightarrow> ChunkLoc st' a = ChunkLoc st a"
  by (rule ChunkLoc_frame) (simp_all add: same_frame_def)

lemma sets_byte_frees_only:
  assumes "sets_byte st l v st'" "load_state st l 0 = USED_MIXED \<or> load_state st l 0 = USED_DATA"
  shows "frees_only st st'"
  using assms unfolding sets_byte_def frees_only_def by auto

lemma frees_only_no_new_use: "frees_only st st' \<Longrightarrow> no_new_use st st'"
  by (simp add: frees_only_def no_new_use_def)

lemma no_new_use_refl: "no_new_use st st"
  by (simp add: no_new_use_def same_frame_refl)

lemma no_new_use_trans: "no_new_use a b \<Longrightarrow> no_new_use b c \<Longrightarrow> no_new_use a c"
  unfolding no_new_use_def by (auto intro: same_frame_trans)

lemma UpdateMemoryTagOnFree_frame:
  assumes "UpdateMemoryTagOnFree st P Size = Inr (t, st')"
  shows "tags_frame st st'" "TLS_Rand st' = TLS_Rand st"
  using assms
  by (auto simp: UpdateMemoryTagOnFree_def Let_def tags_frame_refl
      split: if_splits sum.splits dest: SetMemoryTag_frame)

lemma tags_frame_load:
  assumes "tags_frame st st'"
  shows "load_state st' S i = load_state st S i"
  by (rule load_state_cong) (use assms in \<open>simp_all add: tags_frame_def\<close>)

lemma tags_frame_same_frame:
  assumes "tags_frame st st'" "TLS_Rand st' = TLS_Rand st"
  shows "same_frame st st'"
  using assms by (simp add: tags_frame_def same_frame_def)

lemma store_sets_byte:
  assumes tf: "tags_frame st st1" and r: "TLS_Rand st1 = TLS_Rand st"
  shows "sets_byte st (shift_ptr S i) v (store_state st1 S i v)"
proof -
  have "same_frame st (store_state st1 S i v)"
    using tags_frame_same_frame[OF tf r] by (simp add: same_frame_def)
  moreover have "load_state (store_state st1 S i v) l' 0 =
                   (if l' = shift_ptr S i then v else load_state st l' 0)" for l'
    by (auto simp: load_store_state tags_frame_load[OF tf])
  ultimately show ?thesis by (simp add: sets_byte_def)
qed

lemma sets_byte_quarantine_size:
  "sets_byte st l v st' \<Longrightarrow> sets_byte st l v (st'\<lparr>TLS_LocalQuarantineSize := q\<rparr>)"
  by (simp add: sets_byte_def same_frame_def load_state_def split: state_ptr.splits)

lemma Deallocate_effect:
  assumes "Deallocate st p = Inr st'"
  defines "a \<equiv> ApplyAddressTag (Config st) p 0"
  shows "\<exists>l. ChunkLoc st a = Inr l \<and>
             (load_state st l 0 = USED_MIXED \<or> load_state st l 0 = USED_DATA) \<and>
             sets_byte st l AVAILABLE st'"
proof -
  let ?SP = "RoundDownTo a kSuperPageSize"
  from assms(1) have sd: "SuperPage_Deallocate st ?SP a = Inr st'"
    by (auto simp: Deallocate_def RemoveAddressTagAndCheckForDoubleFree_def Let_def a_def
        split: sum.splits if_splits)
  then obtain SCD Idx t st1 where scd: "GetSCD st ?SP = Inr SCD"
    and idx: "ComputeStatePtr a SCD = Inr Idx"
    and u: "UpdateMemoryTagOnFree st a (ChunkSize SCD) = Inr (t, st1)"
    and ex: "ExchangeAndCheckForDoubleFree st1 (State ?SP (NumChunks SCD) (RangeNum SCD)) Idx AVAILABLE = Inr st'"
    by (auto simp: SuperPage_Deallocate_def split: sum.splits prod.splits)
  let ?S = "State ?SP (NumChunks SCD) (RangeNum SCD)"
  note f = UpdateMemoryTagOnFree_frame[OF u]
  from ex have used: "load_state st1 ?S Idx = USED_MIXED \<or> load_state st1 ?S Idx = USED_DATA"
    and st': "st' = store_state st1 ?S Idx AVAILABLE"
    by (auto simp: ExchangeAndCheckForDoubleFree_def Let_def split: if_splits)
  have loc: "ChunkLoc st a = Inr (shift_ptr ?S Idx)"
    by (simp add: ChunkLoc_def Let_def scd idx)
  have "load_state st (shift_ptr ?S Idx) 0 = load_state st1 ?S Idx"
    by (simp add: load_state_shift[symmetric] tags_frame_load[OF f(1)])
  with used loc store_sets_byte[OF f, of ?S Idx AVAILABLE] show ?thesis
    by (auto simp: st')
qed

lemma Quarantine_effect:
  assumes "Quarantine st p = Inr st'"
  defines "a \<equiv> ApplyAddressTag (Config st) p 0"
  shows "\<exists>l v. ChunkLoc st a = Inr l \<and>
             (load_state st l 0 = USED_MIXED \<or> load_state st l 0 = USED_DATA) \<and>
             (v = QUARANTINED \<or> v = AVAILABLE) \<and> (UseTag (Config st) = 0 \<longrightarrow> v = QUARANTINED) \<and>
             sets_byte st l v st'"
proof -
  let ?SP = "RoundDownTo a kSuperPageSize"
  from assms(1) obtain n st2 where sd: "SuperPage_Quarantine st ?SP a = Inr (n, st2)"
    and st': "st' = st2\<lparr>TLS_LocalQuarantineSize := (TLS_LocalQuarantineSize st2 + n) mod 2 ^ 64\<rparr>"
    by (auto simp: Quarantine_def RemoveAddressTagAndCheckForDoubleFree_def Let_def a_def
        split: sum.splits if_splits)
  then obtain SCD Idx t st1 where scd: "GetSCD st ?SP = Inr SCD"
    and idx: "ComputeStatePtr a SCD = Inr Idx"
    and u: "UpdateMemoryTagOnFree st a (ChunkSize SCD) = Inr (t, st1)"
    by (auto simp: SuperPage_Quarantine_def split: sum.splits prod.splits)
  let ?S = "State ?SP (NumChunks SCD) (RangeNum SCD)"
  note f = UpdateMemoryTagOnFree_frame[OF u]
  have cfg: "Config st1 = Config st" using f(1) by (simp add: tags_frame_def)
  define v where "v = (if (UseTag (Config st) = 1 \<and> t AND 15 \<noteq> 0) \<or> (UseTag (Config st) = 2 \<and> t AND 255 \<noteq> 0)
                       then AVAILABLE else QUARANTINED)"
  from sd scd idx u have ex: "ExchangeAndCheckForDoubleFree st1 ?S Idx v = Inr st2"
    by (auto simp: SuperPage_Quarantine_def Let_def v_def cfg split: sum.splits if_splits)
  from ex have used: "load_state st1 ?S Idx = USED_MIXED \<or> load_state st1 ?S Idx = USED_DATA"
    and st2: "st2 = store_state st1 ?S Idx v"
    by (auto simp: ExchangeAndCheckForDoubleFree_def Let_def split: if_splits)
  have loc: "ChunkLoc st a = Inr (shift_ptr ?S Idx)"
    by (simp add: ChunkLoc_def Let_def scd idx)
  have l: "load_state st (shift_ptr ?S Idx) 0 = load_state st1 ?S Idx"
    by (simp add: load_state_shift[symmetric] tags_frame_load[OF f(1)])
  have "sets_byte st (shift_ptr ?S Idx) v st'"
    unfolding st' st2 by (rule sets_byte_quarantine_size[OF store_sets_byte[OF f]])
  moreover have "v = QUARANTINED \<or> v = AVAILABLE" "UseTag (Config st) = 0 \<longrightarrow> v = QUARANTINED"
    by (auto simp: v_def)
  ultimately show ?thesis using used loc l by auto
qed

lemma fold_invariant:
  assumes "P s" "\<And>x s. x \<in> set xs \<Longrightarrow> P s \<Longrightarrow> P (f x s)"
  shows "P (fold f xs s)"
  using assms by (induction xs arbitrary: s) auto

lemma Mark_cases:
  assumes "Mark st This P = Inr st'"
  shows "st' = st \<or>
         (\<exists>SCD. GetSCD st This = Inr SCD \<and>
            DivBySizeViaMul (P mod kSuperPageSize) (ChunkSizeMulDiv SCD) < NumChunks SCD \<and>
            load_state st (State This (NumChunks SCD) (RangeNum SCD))
              (DivBySizeViaMul (P mod kSuperPageSize) (ChunkSizeMulDiv SCD)) = QUARANTINED \<and>
            st' = store_state st (State This (NumChunks SCD) (RangeNum SCD))
                    (DivBySizeViaMul (P mod kSuperPageSize) (ChunkSizeMulDiv SCD)) MARKED)"
  using assms by (auto simp: Mark_def Let_def split: sum.splits if_splits)

lemma MarkWords_invariant:
  assumes "MarkWords N0 N1 Word End st = Inr st'" and "P st"
    and "\<And>s s' Value. P s \<Longrightarrow> Value < 2 ^ 64 \<Longrightarrow> in_allocated_range Value N0 N1 \<Longrightarrow>
             Mark s (RoundDownTo Value kSuperPageSize) Value = Inr s' \<Longrightarrow> P s'"
  shows "P st'"
  using assms
proof (induction N0 N1 Word End st rule: MarkWords.induct)
  case (1 N0 N1 Word End st)
  note step = "1.prems"(3)
  show ?case
  proof (cases "Word < End")
    case False
    with "1.prems" show ?thesis by (subst (asm) MarkWords.simps) simp
  next
    case True
    let ?V = "unat (load_u64 (Mem st) Word)"
    show ?thesis
    proof (cases "in_allocated_range ?V N0 N1")
      case f: False
      with True "1.prems"(1) have "MarkWords N0 N1 (Word + 8) End st = Inr st'"
        by (subst (asm) MarkWords.simps) (simp add: Let_def)
      from "1.IH"(1)[OF True refl f this "1.prems"(2) step] show ?thesis .
    next
      case t: True
      with True "1.prems"(1) obtain s1 where m: "Mark st (RoundDownTo ?V kSuperPageSize) ?V = Inr s1"
        and r: "MarkWords N0 N1 (Word + 8) End s1 = Inr st'"
        by (subst (asm) MarkWords.simps) (auto simp: Let_def split: sum.splits)
      have lt: "?V < 2 ^ 64" using unsigned_less[of "load_u64 (Mem st) Word", where ?'a = nat] by simp
      have p1: "P s1" by (rule step[OF "1.prems"(2) lt t m])
      show ?thesis
        by (rule "1.IH"(2)[OF True refl _ m r p1 step]) (use t in simp)
    qed
  qed
qed

lemma MarkAllLivePointers_invariant:
  assumes "MarkAllLivePointers N0 N1 This st = Inr st'" and "P st"
    and step: "\<And>s s' Value. P s \<Longrightarrow> Value < 2 ^ 64 \<Longrightarrow> in_allocated_range Value N0 N1 \<Longrightarrow>
             Mark s (RoundDownTo Value kSuperPageSize) Value = Inr s' \<Longrightarrow> P s'"
  shows "P st'"
proof -
  from assms(1) obtain SCD where scd: "GetSCD st This = Inr SCD"
    by (auto simp: MarkAllLivePointers_def split: sum.splits)
  let ?S = "State This (NumChunks SCD) (RangeNum SCD)"
  from assms(1) scd have fe: "for_each
                (\<lambda>Idx s.
                   if load_state s ?S Idx = USED_MIXED then
                     (let P = AddressOfChunk This Idx SCD
                      in MarkWords N0 N1 P (P + ChunkSize SCD) s)
                   else Inr s)
                [0..<NumChunks SCD] st = Inr st'"
    by (simp add: MarkAllLivePointers_def Let_def)
  show ?thesis
  proof (rule for_each_invariant[where P = P, OF fe assms(2)])
    fix x s s' assume "P s" and b: "(if load_state s ?S x = USED_MIXED then
                     (let P = AddressOfChunk This x SCD
                      in MarkWords N0 N1 P (P + ChunkSize SCD) s)
                   else Inr s) = Inr s'"
    show "P s'"
    proof (cases "load_state s ?S x = USED_MIXED")
      case True
      with b have "MarkWords N0 N1 (AddressOfChunk This x SCD) (AddressOfChunk This x SCD + ChunkSize SCD) s = Inr s'"
        by (simp add: Let_def)
      from MarkWords_invariant[where P = P, OF this \<open>P s\<close> step] show ?thesis .
    next
      case False
      with b \<open>P s\<close> show ?thesis by simp
    qed
  qed
qed

lemma ScanLoop_range_invariant:
  assumes "ScanLoop_range N0 N1 R Pos st = Inr st'" and "P st"
    and "\<And>s s' Value. P s \<Longrightarrow> Value < 2 ^ 64 \<Longrightarrow> in_allocated_range Value N0 N1 \<Longrightarrow>
             Mark s (RoundDownTo Value kSuperPageSize) Value = Inr s' \<Longrightarrow> P s'"
    and "\<And>s f. P s \<Longrightarrow> P (s\<lparr>ScanPos := f\<rparr>)"
  shows "P st'"
  using assms
proof (induction N0 N1 R Pos st rule: ScanLoop_range.induct)
  case (1 N0 N1 R Pos st)
  note step = "1.prems"(3) and pos = "1.prems"(4)
  let ?N = "if R = 0 then N0 else N1"
  let ?st = "st\<lparr>ScanPos := (ScanPos st)(R := Pos + 1024)\<rparr>"
  have p: "P ?st" by (rule pos[OF "1.prems"(2)])
  show ?case
  proof (cases "Pos \<ge> ?N")
    case True
    with "1.prems"(1) have "st' = ?st"
      by (subst (asm) ScanLoop_range.simps) (simp add: Let_def)
    with p show ?thesis by simp
  next
    case False
    let ?body = "\<lambda>SPIdx s. case GetSuperPage R SPIdx of
                                    Inl f \<Rightarrow> Inl f
                                  | Inr SP \<Rightarrow> MarkAllLivePointers N0 N1 SP s"
    from False "1.prems"(1) obtain s1 where
      fe: "for_each ?body [Pos..<min ?N (Pos + 1024)] ?st = Inr s1"
      and r: "ScanLoop_range N0 N1 R (Pos + 1024) s1 = Inr st'"
      by (subst (asm) ScanLoop_range.simps) (auto simp: Let_def split: sum.splits)
    have p1: "P s1"
    proof (rule for_each_invariant[where P = P, OF fe p])
      fix x s s' assume "P s" and b: "?body x s = Inr s'"
      then obtain SP where "MarkAllLivePointers N0 N1 SP s = Inr s'" by (auto split: sum.splits)
      from MarkAllLivePointers_invariant[where P = P, OF this \<open>P s\<close> step] show "P s'" .
    qed
    show ?thesis
      by (rule "1.IH"[OF refl refl False refl fe r p1 step pos])
  qed
qed

lemma ScanLoop_invariant:
  assumes "ScanLoop st = Inr st'" and "P st"
    and step: "\<And>s s' Value. P s \<Longrightarrow> Value < 2 ^ 64 \<Longrightarrow> in_allocated_range Value (NumSuperPages st 0) (NumSuperPages st 1) \<Longrightarrow>
             Mark s (RoundDownTo Value kSuperPageSize) Value = Inr s' \<Longrightarrow> P s'"
    and pos: "\<And>s f. P s \<Longrightarrow> P (s\<lparr>ScanPos := f\<rparr>)"
  shows "P st'"
proof -
  let ?N0 = "NumSuperPages st 0" and ?N1 = "NumSuperPages st 1"
  from assms(1) obtain s1 where a: "ScanLoop_range ?N0 ?N1 0 (ScanPos st 0) st = Inr s1"
    and b: "ScanLoop_range ?N0 ?N1 1 (ScanPos s1 1) s1 = Inr st'"
    by (auto simp: ScanLoop_def Let_def split: sum.splits)
  have "P s1" by (rule ScanLoop_range_invariant[where P = P, OF a assms(2) step pos])
  then show ?thesis by (rule ScanLoop_range_invariant[where P = P, OF b _ step pos])
qed

lemma load_state_field [simp]:
  "load_state (st\<lparr>ScanPos := f\<rparr>) = load_state st"
  "load_state (st\<lparr>NumScans := n\<rparr>) = load_state st"
  "load_state (st\<lparr>BytesInQuarantine := b\<rparr>) = load_state st"
  "load_state (st\<lparr>LastQurantineSize := b\<rparr>) = load_state st"
  "load_state (st\<lparr>TLS_LocalQuarantineSize := b\<rparr>) = load_state st"
  "load_state (st\<lparr>TLS_PerSC := t\<rparr>) = load_state st"
  "load_state (st\<lparr>TLS_Rand := r\<rparr>) = load_state st"
  by (intro ext load_state_cong; simp)+

lemma store_no_new_use:
  assumes "v \<noteq> USED_MIXED" "v \<noteq> USED_DATA"
  shows "no_new_use st (store_state st S i v)"
  using assms by (auto simp: no_new_use_def same_frame_def load_store_state)

lemma MARKED_not_used: "MARKED \<noteq> USED_MIXED" "MARKED \<noteq> USED_DATA"
  "QUARANTINED \<noteq> USED_MIXED" "QUARANTINED \<noteq> USED_DATA"
  "AVAILABLE \<noteq> USED_MIXED" "AVAILABLE \<noteq> USED_DATA"
  by (simp_all add: MARKED_def USED_MIXED_def USED_DATA_def QUARANTINED_def AVAILABLE_def)

lemma Mark_no_new_use:
  assumes "Mark st This P = Inr st'"
  shows "no_new_use st st'"
proof -
  have "no_new_use st (store_state st S i MARKED)" for S i
    by (rule store_no_new_use) (rule MARKED_not_used)+
  with Mark_cases[OF assms] show ?thesis by (auto intro: no_new_use_refl)
qed

lemma no_new_use_field:
  "no_new_use st st' \<Longrightarrow> no_new_use st (st'\<lparr>ScanPos := f\<rparr>)"
  "no_new_use st st' \<Longrightarrow> no_new_use st (st'\<lparr>NumScans := n\<rparr>)"
  "no_new_use st st' \<Longrightarrow> no_new_use st (st'\<lparr>BytesInQuarantine := b\<rparr>)"
  "no_new_use st st' \<Longrightarrow> no_new_use st (st'\<lparr>LastQurantineSize := b\<rparr>)"
  "no_new_use st st' \<Longrightarrow> no_new_use st (st'\<lparr>TLS_LocalQuarantineSize := b\<rparr>)"
  by (simp_all add: no_new_use_def same_frame_def)

lemma ScanLoop_no_new_use:
  assumes "ScanLoop st = Inr st'"
  shows "no_new_use st st'"
  by (rule ScanLoop_invariant[OF assms, where P = "no_new_use st"])
     (auto intro: no_new_use_refl no_new_use_field no_new_use_trans dest: Mark_no_new_use)

lemma IterateStates_no_new_use:
  assumes "IterateStates st This CB = Inr st'"
    and cb: "\<And>v. v \<noteq> USED_MIXED \<Longrightarrow> v \<noteq> USED_DATA \<Longrightarrow> CB v \<noteq> USED_MIXED \<and> CB v \<noteq> USED_DATA"
  shows "no_new_use st st'"
proof -
  from assms(1) obtain SCD where scd: "GetSCD st This = Inr SCD"
    by (auto simp: IterateStates_def split: sum.splits)
  let ?S = "State This (NumChunks SCD) (RangeNum SCD)"
  from assms(1) scd have st': "st' = fold (\<lambda>i s. store_state s ?S i (CB (load_state s ?S i))) [0..<NumChunks SCD] st"
    by (simp add: IterateStates_def Let_def)
  show ?thesis
    unfolding st'
  proof (rule fold_invariant[where P = "no_new_use st"])
    show "no_new_use st st" by (rule no_new_use_refl)
  next
    fix x s assume a: "no_new_use st s"
    have sf: "same_frame st (store_state s ?S x (CB (load_state s ?S x)))"
      using a by (simp add: no_new_use_def same_frame_def)
    have "load_state (store_state s ?S x (CB (load_state s ?S x))) l 0 \<noteq> USED_MIXED \<and>
            load_state (store_state s ?S x (CB (load_state s ?S x))) l 0 \<noteq> USED_DATA"
      if o: "load_state st l 0 \<noteq> USED_MIXED \<and> load_state st l 0 \<noteq> USED_DATA" for l
    proof -
      from o a have n: "load_state s l 0 \<noteq> USED_MIXED \<and> load_state s l 0 \<noteq> USED_DATA"
        by (simp add: no_new_use_def)
      show ?thesis
      proof (cases "shift_ptr ?S x = l")
        case True
        then have "load_state s ?S x = load_state s l 0" by (simp add: load_state_shift[of s ?S x])
        with n cb[of "load_state s ?S x"] True show ?thesis by (simp add: load_store_state)
      next
        case False
        with n show ?thesis by (simp add: load_store_state)
      qed
    qed
    with sf show "no_new_use st (store_state s ?S x (CB (load_state s ?S x)))"
      unfolding no_new_use_def by blast
  qed
qed

lemma PostScan_page_no_new_use:
  assumes "PostScan_page R i acc = Inr acc'"
  shows "no_new_use (snd acc) (snd acc')"
proof -
  from assms obtain SP st1 where m: "MoveFromQuarantineToAvailable (snd acc) SP = Inr st1"
    and e: "snd acc' = st1"
    by (auto simp: PostScan_page_def split: sum.splits)
  from m have "no_new_use (snd acc) st1"
    unfolding MoveFromQuarantineToAvailable_def
    by (rule IterateStates_no_new_use) (auto simp: Let_def MARKED_not_used)
  with e show ?thesis by simp
qed

lemma PostScan_no_new_use:
  assumes "PostScan st = Inr (n, st')"
  shows "no_new_use st st'"
proof -
  from assms obtain acc1 where a: "for_each (PostScan_page 0) [0..<NumSuperPages st 0] (0, st) = Inr acc1"
    and b: "for_each (PostScan_page 1) [0..<NumSuperPages (snd acc1) 1] acc1 = Inr (n, st')"
    by (auto simp: PostScan_def split: sum.splits)
  have 1: "no_new_use st (snd acc1)"
    by (rule for_each_invariant[OF a, where P = "\<lambda>acc. no_new_use st (snd acc)"])
       (auto intro: no_new_use_refl no_new_use_trans dest: PostScan_page_no_new_use)
  have "no_new_use st (snd (n, st'))"
    by (rule for_each_invariant[OF b, where P = "\<lambda>acc. no_new_use st (snd acc)"])
       (auto intro: 1 no_new_use_trans dest: PostScan_page_no_new_use)
  then show ?thesis by simp
qed

lemma Scan_no_new_use:
  assumes "Scan st = Inr st'"
  shows "no_new_use st st'"
proof -
  let ?st0 = "(st\<lparr>ScanPos := (\<lambda>R. if R = 0 \<or> R = 1 then 0 else ScanPos st R)\<rparr>)"
  let ?st1 = "?st0\<lparr>NumScans := NumScans ?st0 + 1\<rparr>"
  from assms obtain s1 n s2 where a: "ScanLoop ?st1 = Inr s1" and b: "PostScan s1 = Inr (n, s2)"
    and e: "st' = s2\<lparr>BytesInQuarantine := n, LastQurantineSize := n\<rparr>"
    by (auto simp: Scan_def Let_def split: sum.splits prod.splits)
  have 0: "no_new_use st ?st1"
    by (intro no_new_use_field no_new_use_refl)
  from no_new_use_trans[OF no_new_use_trans[OF 0 ScanLoop_no_new_use[OF a]] PostScan_no_new_use[OF b]]
  show ?thesis unfolding e by (intro no_new_use_field)
qed

lemma keeps_refl: "keeps st st"
  by (simp add: keeps_def)

lemma keeps_trans: "keeps a b \<Longrightarrow> keeps b c \<Longrightarrow> keeps a c"
  by (auto simp: keeps_def)

lemma same_frame_keeps: "same_frame st st' \<Longrightarrow> keeps st st'"
  by (simp add: keeps_def same_frame_def is_mapped_def)

lemma keeps_mapped_addr: "keeps st st' \<Longrightarrow> mapped_addr st b \<Longrightarrow> mapped_addr st' b"
  by (simp add: keeps_def mapped_addr_def)

lemma allocates_keeps:
  assumes "allocates st p st'"
  shows "keeps st st'"
proof -
  from assms obtain st1 g Pos where gr: "grows st st1" and t: "takes st1 g Pos st'"
    unfolding allocates_def by blast
  have m: "is_mapped st g' \<Longrightarrow> is_mapped st' g'" for g'
    using grows_mapped[OF gr] takes_mapped[OF t] by simp
  from t have "InitAllOnce st'" by (simp add: takes_def started_def)
  with gr m takes_fields(2,3,5)[OF t] show ?thesis
    by (auto simp: keeps_def grows_def)
qed

lemma no_new_use_freed:
  assumes "no_new_use st st'" "freed st b"
  shows "freed st' b"
proof -
  from assms(1) have sf: "same_frame st st'" by (simp add: no_new_use_def)
  from assms(2) obtain w l where m: "mapped_addr st b" and l: "ChunkLoc st b = Inr l"
    and w: "load_state st l 0 = w" "w \<noteq> USED_MIXED" "w \<noteq> USED_DATA"
    unfolding freed_def ChunkState_loc by (auto split: sum.splits)
  from assms(1) w have "load_state st' l 0 \<noteq> USED_MIXED \<and> load_state st' l 0 \<noteq> USED_DATA"
    by (simp add: no_new_use_def)
  then show ?thesis
    unfolding freed_def ChunkState_loc same_frame_ChunkLoc[OF sf] l
    using m by (simp add: same_frame_mapped_addr[OF sf])
qed

lemma frees_only_ChunkState:
  assumes "frees_only st st'" "ChunkState st b = Inr w" "w \<noteq> USED_MIXED" "w \<noteq> USED_DATA"
  shows "ChunkState st' b = Inr w"
proof -
  from assms(1) have sf: "same_frame st st'" by (simp add: frees_only_def)
  from assms(2) obtain l where l: "ChunkLoc st b = Inr l" and w: "load_state st l 0 = w"
    unfolding ChunkState_loc by (auto split: sum.splits)
  from assms(1,3,4) w have "load_state st' l 0 = w" by (simp add: frees_only_def)
  then show ?thesis unfolding ChunkState_loc same_frame_ChunkLoc[OF sf] l by simp
qed

lemma do_call_count:
  assumes "do_call st cl = Some (Inr (r, st'))"
  shows "NumSuperPages st 0 \<le> NumSuperPages st' 0"
proof (cases cl)
  case (CallAllocate n)
  with assms obtain p where "Allocate st n = Some (Inr (p, st'))"
    by (auto split: option.splits sum.splits)
  then show ?thesis by (rule Allocate_count)
next
  case (CallDeallocate p)
  with assms have "Deallocate st p = Inr st'" by (auto split: sum.splits)
  from Deallocate_effect[OF this] show ?thesis by (auto simp: sets_byte_def same_frame_def)
next
  case (CallQuarantine p)
  with assms have "Quarantine st p = Inr st'" by (auto split: sum.splits)
  from Quarantine_effect[OF this] show ?thesis by (auto simp: sets_byte_def same_frame_def)
next
  case CallScan
  with assms have "Scan st = Inr st'" by (auto split: sum.splits)
  from Scan_no_new_use[OF this] show ?thesis by (simp add: no_new_use_def same_frame_def)
qed

lemma run_calls_count:
  "run_calls st cs = Some (Inr (ps, st')) \<Longrightarrow> NumSuperPages st 0 \<le> NumSuperPages st' 0"
proof (induction cs arbitrary: st ps)
  case Nil
  then show ?case by simp
next
  case (Cons c cs)
  from Cons.prems obtain r st1 ps' where d: "do_call st c = Some (Inr (r, st1))"
    and rr: "run_calls st1 cs = Some (Inr (ps', st'))"
    by (rule run_calls_Cons_Inr)
  from do_call_count[OF d] Cons.IH[OF rr] show ?case by simp
qed

lemma do_call_step:
  assumes c: "consistent st" and d: "do_call st cl = Some (Inr (r, st'))"
    and bound: "NumSuperPages st' 0 \<le> 2 ^ 20"
  shows "consistent st'" "keeps st st'"
    "\<And>b. freed st b \<Longrightarrow> (\<forall>p. r = Some p \<longrightarrow> ApplyAddressTag (Config st) p 0 \<noteq> b) \<Longrightarrow> freed st' b"
    "\<And>b. mapped_addr st b \<Longrightarrow> ChunkState st b = Inr QUARANTINED \<Longrightarrow> cl \<noteq> CallScan \<Longrightarrow>
          ChunkState st' b = Inr QUARANTINED \<and> (\<forall>p. r = Some p \<longrightarrow> ApplyAddressTag (Config st) p 0 \<noteq> b)"
proof -
  have q: "QUARANTINED \<noteq> AVAILABLE" by (simp add: QUARANTINED_def AVAILABLE_def)
  have "consistent st' \<and> keeps st st' \<and>
    (\<forall>b. freed st b \<longrightarrow> (\<forall>p. r = Some p \<longrightarrow> ApplyAddressTag (Config st) p 0 \<noteq> b) \<longrightarrow> freed st' b) \<and>
    (\<forall>b. mapped_addr st b \<longrightarrow> ChunkState st b = Inr QUARANTINED \<longrightarrow> cl \<noteq> CallScan \<longrightarrow>
          ChunkState st' b = Inr QUARANTINED \<and> (\<forall>p. r = Some p \<longrightarrow> ApplyAddressTag (Config st) p 0 \<noteq> b))"
  proof (cases cl)
    case (CallAllocate n)
    with d obtain p where a: "Allocate st n = Some (Inr (p, st'))" and r: "r = Some p"
      by (auto split: option.splits sum.splits)
    from Allocate_spec[OF c a bound] have al: "allocates st p st'" .
    note e = allocates_effect[OF c al]
    have "freed st' b" if "freed st b" "ApplyAddressTag (Config st) p 0 \<noteq> b" for b
      using that e(5)[of b] e(6)[of b] by (auto simp: freed_def)
    moreover have "ChunkState st' b = Inr QUARANTINED \<and> ApplyAddressTag (Config st) p 0 \<noteq> b"
      if m: "mapped_addr st b" and s: "ChunkState st b = Inr QUARANTINED" for b
    proof -
      have ne: "ApplyAddressTag (Config st) p 0 \<noteq> b"
        using e(4) m s q by auto
      with e(6)[OF m] s show ?thesis by simp
    qed
    ultimately show ?thesis
      using e(1) allocates_keeps[OF al] r by (simp add: consistent_def)
  next
    case (CallDeallocate p)
    with d have dd: "Deallocate st p = Inr st'" and r: "r = None" by (auto split: sum.splits)
    from Deallocate_effect[OF dd] obtain l where
      u: "load_state st l 0 = USED_MIXED \<or> load_state st l 0 = USED_DATA"
      and sb: "sets_byte st l AVAILABLE st'" by blast
    note fo = sets_byte_frees_only[OF sb u]
    have sf: "same_frame st st'" using sb by (simp add: sets_byte_def)
    show ?thesis
      using same_frame_consistent[OF sf c] same_frame_keeps[OF sf] r
        no_new_use_freed[OF frees_only_no_new_use[OF fo]]
        frees_only_ChunkState[OF fo] MARKED_not_used
      by auto
  next
    case (CallQuarantine p)
    with d have dd: "Quarantine st p = Inr st'" and r: "r = None" by (auto split: sum.splits)
    from Quarantine_effect[OF dd] obtain l v where
      u: "load_state st l 0 = USED_MIXED \<or> load_state st l 0 = USED_DATA"
      and sb: "sets_byte st l v st'" by blast
    note fo = sets_byte_frees_only[OF sb u]
    have sf: "same_frame st st'" using sb by (simp add: sets_byte_def)
    show ?thesis
      using same_frame_consistent[OF sf c] same_frame_keeps[OF sf] r
        no_new_use_freed[OF frees_only_no_new_use[OF fo]]
        frees_only_ChunkState[OF fo] MARKED_not_used
      by auto
  next
    case CallScan
    with d have dd: "Scan st = Inr st'" and r: "r = None" by (auto split: sum.splits)
    note nn = Scan_no_new_use[OF dd]
    have sf: "same_frame st st'" using nn by (simp add: no_new_use_def)
    show ?thesis
      using same_frame_consistent[OF sf c] same_frame_keeps[OF sf] r no_new_use_freed[OF nn] CallScan
      by auto
  qed
  then show "consistent st'" "keeps st st'"
    "\<And>b. freed st b \<Longrightarrow> (\<forall>p. r = Some p \<longrightarrow> ApplyAddressTag (Config st) p 0 \<noteq> b) \<Longrightarrow> freed st' b"
    "\<And>b. mapped_addr st b \<Longrightarrow> ChunkState st b = Inr QUARANTINED \<Longrightarrow> cl \<noteq> CallScan \<Longrightarrow>
          ChunkState st' b = Inr QUARANTINED \<and> (\<forall>p. r = Some p \<longrightarrow> ApplyAddressTag (Config st) p 0 \<noteq> b)"
    by blast+
qed

lemma run_calls_invariant:
  assumes "consistent st" "run_calls st cs = Some (Inr (ps, st'))" "NumSuperPages st' 0 \<le> 2 ^ 20"
  shows "consistent st' \<and> keeps st st' \<and>
    (\<forall>b. freed st b \<longrightarrow> b \<notin> (\<lambda>p. ApplyAddressTag (Config st) p 0) ` set ps \<longrightarrow> freed st' b) \<and>
    (\<forall>b. mapped_addr st b \<longrightarrow> ChunkState st b = Inr QUARANTINED \<longrightarrow> CallScan \<notin> set cs \<longrightarrow>
          ChunkState st' b = Inr QUARANTINED \<and> b \<notin> (\<lambda>p. ApplyAddressTag (Config st) p 0) ` set ps)"
  using assms
proof (induction cs arbitrary: st ps)
  case Nil
  then show ?case by (simp add: keeps_refl)
next
  case (Cons c cs)
  from Cons.prems(2) obtain r st1 ps' where d: "do_call st c = Some (Inr (r, st1))"
    and rr: "run_calls st1 cs = Some (Inr (ps', st'))"
    and ps: "ps = (case r of None \<Rightarrow> ps' | Some p \<Rightarrow> p # ps')"
    by (rule run_calls_Cons_Inr)
  have b1: "NumSuperPages st1 0 \<le> 2 ^ 20" using run_calls_count[OF rr] Cons.prems(3) by simp
  note s = do_call_step[OF Cons.prems(1) d b1]
  have cfg: "Config st1 = Config st" using s(2) by (simp add: keeps_def)
  from Cons.IH[OF s(1) rr Cons.prems(3)]
  have IH: "consistent st'" "keeps st1 st'"
    "\<And>b. freed st1 b \<Longrightarrow> b \<notin> (\<lambda>p. ApplyAddressTag (Config st) p 0) ` set ps' \<Longrightarrow> freed st' b"
    "\<And>b. mapped_addr st1 b \<Longrightarrow> ChunkState st1 b = Inr QUARANTINED \<Longrightarrow> CallScan \<notin> set cs \<Longrightarrow>
          ChunkState st' b = Inr QUARANTINED \<and> b \<notin> (\<lambda>p. ApplyAddressTag (Config st) p 0) ` set ps'"
    unfolding cfg by blast+
  have "freed st' b" if "freed st b" "b \<notin> (\<lambda>p. ApplyAddressTag (Config st) p 0) ` set ps" for b
  proof -
    from that(2) have "\<forall>p. r = Some p \<longrightarrow> ApplyAddressTag (Config st) p 0 \<noteq> b"
      and "b \<notin> (\<lambda>p. ApplyAddressTag (Config st) p 0) ` set ps'"
      by (auto simp: ps split: option.splits)
    from IH(3)[OF s(3)[OF that(1) this(1)] this(2)] show ?thesis .
  qed
  moreover have "ChunkState st' b = Inr QUARANTINED \<and> b \<notin> (\<lambda>p. ApplyAddressTag (Config st) p 0) ` set ps"
    if m: "mapped_addr st b" and qq: "ChunkState st b = Inr QUARANTINED" and ns: "CallScan \<notin> set (c # cs)" for b
  proof -
    from ns have "c \<noteq> CallScan" "CallScan \<notin> set cs" by auto
    from s(4)[OF m qq this(1)] IH(4)[OF keeps_mapped_addr[OF s(2) m] _ this(2)]
    show ?thesis by (auto simp: ps split: option.splits)
  qed
  ultimately show ?case using IH(1) keeps_trans[OF s(2) IH(2)] by blast
qed

section \<open>Double frees and chunks in quarantine\<close>






lemma GetSCD_SPA:
  assumes "g < 2 ^ 21"
  shows "GetSCD st (SPA g) =
           (if unat (SuperPageMetadata st g) < length (SCDescr st)
            then Inr (SCDescr st ! unat (SuperPageMetadata st g)) else Inl OutOfBounds)"
proof -
  have "FixedShadow_IsMine kAllocatorSpace kAllocatorSize (SPA g + 0)"
    by (rule IsMine_SPA[OF assms]) (simp add: kSuperPageSize_def)
  moreover have "FixedShadow_Index kAllocatorSpace kSuperPageSize (SPA g + 0) = g"
    by (rule FixedShadow_Index_SPA[OF assms]) (simp add: kSuperPageSize_def)
  ultimately show ?thesis by (simp add: GetSCD_def GetSizeClass_def)
qed


lemma sets_byte_ChunkState:
  assumes "sets_byte st l v st'" "ChunkLoc st a = Inr l"
  shows "ChunkState st' a = Inr v"
proof -
  from assms(1) have sf: "same_frame st st'" and "load_state st' l 0 = v"
    by (simp_all add: sets_byte_def)
  then show ?thesis
    unfolding ChunkState_loc same_frame_ChunkLoc[OF sf] assms(2) by simp
qed


text \<open>
  C2, as the code has it. A \<open>Quarantine(p)\<close> on a pointer into a mapped super page has
  left the chunk of \<open>p\<close> in state \<open>QUARANTINED\<close>, and a run of \<open>Allocate\<close>, \<open>Deallocate\<close> and
  \<open>Quarantine\<close> calls follows, with no \<open>Scan\<close> (and the first range within its \<open>2 ^ 20\<close>
  super pages). Then no \<open>Allocate\<close> of the run returns \<open>p\<close> or any other pointer to its
  chunk, and the chunk is still \<open>QUARANTINED\<close> after the run.
\<close>

theorem quarantined_not_reused:
  assumes "consistent st0"
    and "Quarantine st0 p = Inr st1"
    and "mapped_addr st0 (ApplyAddressTag (Config st0) p 0)"
    and "ChunkState st1 (ApplyAddressTag (Config st0) p 0) = Inr QUARANTINED"
    and "run_calls st1 cs = Some (Inr (ps, st2))"
    and "CallScan \<notin> set cs"
    and "NumSuperPages st2 0 \<le> 2 ^ 20"
  shows "p \<notin> set ps \<and>
         ApplyAddressTag (Config st0) p 0 \<notin> (\<lambda>q. ApplyAddressTag (Config st0) q 0) ` set ps \<and>
         ChunkState st2 (ApplyAddressTag (Config st0) p 0) = Inr QUARANTINED"
proof -
  let ?a = "ApplyAddressTag (Config st0) p 0"
  from Quarantine_effect[OF assms(2)] obtain l v where sb: "sets_byte st0 l v st1" by blast
  have sf: "same_frame st0 st1" using sb by (simp add: sets_byte_def)
  have c1: "consistent st1" by (rule same_frame_consistent[OF sf assms(1)])
  have cfg1: "Config st1 = Config st0" using sf by (simp add: same_frame_def)
  have m1: "mapped_addr st1 ?a" using assms(3) by (simp add: same_frame_mapped_addr[OF sf])
  from run_calls_invariant[OF c1 assms(5,7)] m1 assms(4,6)
  have "ChunkState st2 ?a = Inr QUARANTINED"
    and n: "?a \<notin> (\<lambda>q. ApplyAddressTag (Config st0) q 0) ` set ps"
    unfolding cfg1 by blast+
  moreover from n have "p \<notin> set ps" by blast
  ultimately show ?thesis by simp
qed

lemma Quarantine_leaves_quarantined:
  assumes "Quarantine st0 p = Inr st1" "UseTag (Config st0) = 0"
  shows "ChunkState st1 (ApplyAddressTag (Config st0) p 0) = Inr QUARANTINED"
  using Quarantine_effect[OF assms(1)]
proof (elim exE conjE)
  fix l v
  assume l: "ChunkLoc st0 (ApplyAddressTag (Config st0) p 0) = Inr l"
    and imp: "UseTag (Config st0) = 0 \<longrightarrow> v = QUARANTINED"
    and sb: "sets_byte st0 l v st1"
  from imp assms(2) have ve: "v = QUARANTINED" by (rule mp)
  show ?thesis by (rule sets_byte_ChunkState[OF sb[unfolded ve] l])
qed

lemma Allocate_overflow:
  assumes "\<not> UseShadow (Config st)" "\<not> UseAliases (Config st)" "SCDescr st = the InitAll"
    and "NumSuperPages st 0 = 1048576" "\<forall>g < 1048576. SuperPageMetadata st g \<noteq> 0"
    and "DataOnlyScopeLevel st = 0" "TLS_PerSC st 0 = (0, 0)" "TLS_Rand st \<noteq> 0"
  shows "\<exists>st'. Allocate st 1 = Some (Inr (SPA 1048576, st'))"
proof -
  from AllocateSlower_while_overflow[OF assms(1-6)]
  obtain s2 where w: "AllocateSlower_while 1 0 (the InitAll ! 0) st = Some (Inr (SPA 1048576, s2))"
    by blast
  have "Allocate st 1 = Some (Inr (SPA 1048576, s2))"
    unfolding Allocate_def assms(3) SizeToSizeClass_1
    by (simp add: assms(7,8,3) AllocateSlower_def SizeToSizeClass_1 w del: One_nat_def)
  then show ?thesis by blast
qed

lemma SPA_0: "SPA 0 = kAllocatorSpace"
  by (simp add: SPA_def)

lemma RoundDownTo_kAllocatorSpace: "RoundDownTo kAllocatorSpace kSuperPageSize = kAllocatorSpace"
  using RoundDownTo_SPA[of 0 0] by (simp add: SPA_0 kSuperPageSize_def)

lemma region_checks:
  "\<not> kAllocatorSpace < kAllocatorSpace" "\<not> kAllocatorSpace + kAllocatorSize \<le> kAllocatorSpace"
  "kAllocatorSpace mod kSuperPageSize = 0" "0 < kAllocatorSize"
  by (simp_all add: kAllocatorSize_def kAllocatorSpace_def kSuperPageSize_def)

lemma Quarantine_plain:
  defines "st0 \<equiv> one_used_chunk plain_config 0"
  shows "Quarantine st0 kAllocatorSpace =
           Inr ((store_state st0 (InSuperPage (kAllocatorSpace + kSuperPageSize - 30848)) 0 QUARANTINED)
                  \<lparr>TLS_LocalQuarantineSize := 16\<rparr>)"
proof -
  let ?SCD = "\<lparr>RangeNum = 0, NumChunks = 30840, ChunkSizeDiv16 = 1, ChunkSizeMulDiv = 2147483648\<rparr>"
  have r: "RemoveAddressTagAndCheckForDoubleFree st0 kAllocatorSpace = Inr kAllocatorSpace"
    by (simp add: RemoveAddressTagAndCheckForDoubleFree_def GetMemoryTag_def ApplyAddressTag_def
        st0_def one_used_chunk_fields plain_config_def Let_def)
  have a: "GetSCD st0 kAllocatorSpace = Inr ?SCD" unfolding st0_def by (rule GetSCD_one_used_chunk)
  have b: "ComputeStatePtr kAllocatorSpace ?SCD = Inr 0"
    using ComputeStatePtr_base by (simp add: SCDescr_0)
  have c: "UpdateMemoryTagOnFree st0 kAllocatorSpace (ChunkSize ?SCD) = Inr (0, st0)"
    by (simp add: UpdateMemoryTagOnFree_def st0_def one_used_chunk_fields plain_config_def)
  have d: "load_state st0 (State kAllocatorSpace (NumChunks ?SCD) (RangeNum ?SCD)) 0 \<in> {USED_MIXED, USED_DATA}"
    by (simp add: State_class0 load_state_def st0_def one_used_chunk_fields)
  have e: "UseTag (Config st0) = 0" by (simp add: st0_def one_used_chunk_fields plain_config_def)
  have q: "SuperPage_Quarantine st0 kAllocatorSpace kAllocatorSpace =
             Inr (16, store_state st0 (InSuperPage (kAllocatorSpace + kSuperPageSize - 30848)) 0 QUARANTINED)"
    unfolding SuperPage_Quarantine_used[OF a b c d] using e
    by (simp add: ChunkSize_def State_class0)
  have z: "TLS_LocalQuarantineSize st0 = 0" by (simp add: st0_def one_used_chunk_fields)
  show ?thesis
    unfolding Quarantine_def r
    by (simp add: Let_def RoundDownTo_kAllocatorSpace region_checks q z store_state_def)
qed

lemma Quarantine_tagging:
  defines "t0 \<equiv> one_used_chunk tagging_config 0"
  shows "Quarantine t0 kAllocatorSpace =
           Inr ((store_state (t0\<lparr>SmallShadow := (SmallShadow t0)(0 := 1)\<rparr>)
                   (InSuperPage (kAllocatorSpace + kSuperPageSize - 30848)) 0 AVAILABLE)
                  \<lparr>TLS_LocalQuarantineSize := 0\<rparr>)"
proof -
  let ?SCD = "\<lparr>RangeNum = 0, NumChunks = 30840, ChunkSizeDiv16 = 1, ChunkSizeMulDiv = 2147483648\<rparr>"
  let ?t1 = "t0\<lparr>SmallShadow := (SmallShadow t0)(0 := 1)\<rparr>"
  have r: "RemoveAddressTagAndCheckForDoubleFree t0 kAllocatorSpace = Inr kAllocatorSpace"
    by (simp add: RemoveAddressTagAndCheckForDoubleFree_def GetMemoryTag_def ApplyAddressTag_def
        t0_def one_used_chunk_fields tagging_config_def Let_def FixedShadow_IsMine_def
        kAllocatorSize_def)
  have a: "GetSCD t0 kAllocatorSpace = Inr ?SCD" unfolding t0_def by (rule GetSCD_one_used_chunk)
  have b: "ComputeStatePtr kAllocatorSpace ?SCD = Inr 0"
    using ComputeStatePtr_base by (simp add: SCDescr_0)
  have c: "UpdateMemoryTagOnFree t0 kAllocatorSpace (ChunkSize ?SCD) = Inr (1, ?t1)"
    using UpdateMemoryTagOnFree_one_used_chunk[of 0] by (simp add: ChunkSize_def t0_def)
  have d: "load_state ?t1 (State kAllocatorSpace (NumChunks ?SCD) (RangeNum ?SCD)) 0 \<in> {USED_MIXED, USED_DATA}"
    by (simp add: State_class0 load_state_def t0_def one_used_chunk_fields)
  have e: "UseTag (Config ?t1) = 1" by (simp add: t0_def one_used_chunk_fields tagging_config_def)
  have q: "SuperPage_Quarantine t0 kAllocatorSpace kAllocatorSpace =
             Inr (0, store_state ?t1 (InSuperPage (kAllocatorSpace + kSuperPageSize - 30848)) 0 AVAILABLE)"
    unfolding SuperPage_Quarantine_used[OF a b c d] using e
    by (simp add: ChunkSize_def State_class0)
  have z: "TLS_LocalQuarantineSize ?t1 = 0" "TLS_LocalQuarantineSize t0 = 0"
    by (simp_all add: t0_def one_used_chunk_fields)
  show ?thesis
    unfolding Quarantine_def r
    by (simp add: Let_def RoundDownTo_kAllocatorSpace region_checks q z store_state_def)
qed

lemma ChunkState_first_chunk:
  assumes "GetSCD st kAllocatorSpace = Inr (the InitAll ! 0)"
  shows "ChunkState st kAllocatorSpace =
           Inr (load_state st (InSuperPage (kAllocatorSpace + kSuperPageSize - 30848)) 0)"
  unfolding ChunkState_def Let_def RoundDownTo_kAllocatorSpace assms
  by (simp add: ComputeStatePtr_base) (simp add: SCDescr_0 State_class0)

lemma plain_run:
  defines "st0 \<equiv> one_used_chunk plain_config 0"
  defines "S \<equiv> InSuperPage (kAllocatorSpace + kSuperPageSize - 30848)"
  defines "st1 \<equiv> (store_state st0 S 0 QUARANTINED)\<lparr>TLS_LocalQuarantineSize := 16\<rparr>"
  defines "st2 \<equiv> (store_state st1 S 1 USED_MIXED)\<lparr>TLS_PerSC := (TLS_PerSC st1)(0 := (kAllocatorSpace, 1 + 1))\<rparr>"
  shows "consistent st0"
    "Quarantine st0 kAllocatorSpace = Inr st1"
    "mapped_addr st0 (ApplyAddressTag (Config st0) kAllocatorSpace 0)"
    "run_calls st1 [CallAllocate 1] = Some (Inr ([kAllocatorSpace + 16], st2))"
    "ApplyAddressTag (Config st0) kAllocatorSpace 0 \<notin>
       (\<lambda>q. ApplyAddressTag (Config st0) q 0) ` set [kAllocatorSpace + 16]"
    "NumSuperPages st2 0 \<le> 2 ^ 20"
    "UseTag (Config st0) = 0"
    "ApplyAddressTag (Config st0) kAllocatorSpace 0 = kAllocatorSpace"
    "CallScan \<notin> set [CallAllocate 1]"
proof -
  show "consistent st0" by (simp add: st0_def consistent_def started_one_used_chunk)
  show q: "Quarantine st0 kAllocatorSpace = Inr st1"
    unfolding st0_def st1_def S_def by (rule Quarantine_plain)
  have ap: "ApplyAddressTag (Config st0) a 0 = a" for a
    by (simp add: ApplyAddressTag_def st0_def one_used_chunk_fields plain_config_def)
  show "ApplyAddressTag (Config st0) kAllocatorSpace 0 = kAllocatorSpace" by (rule ap)
  show "mapped_addr st0 (ApplyAddressTag (Config st0) kAllocatorSpace 0)"
    unfolding ap by (simp add: mapped_addr_def is_mapped_def st0_def one_used_chunk_fields)
  have u: "\<forall>j<1. bit (load_state st1 S j) 0"
    by (simp add: st1_def S_def load_state_def store_state_def QUARANTINED_def)
  have v: "load_state st1 S 1 = AVAILABLE"
    by (simp add: st1_def st0_def S_def load_state_def store_state_def one_used_chunk_fields AVAILABLE_def)
  have a: "Allocate st1 1 = Some (Inr (kAllocatorSpace + 1 * 16, st2))"
    unfolding st2_def S_def
    by (rule Allocate_class0[where Hint = 1, OF _ _ _ _ u[unfolded S_def] v[unfolded S_def]])
       (simp_all add: st1_def st0_def S_def one_used_chunk_fields plain_config_def store_state_def)
  show "run_calls st1 [CallAllocate 1] = Some (Inr ([kAllocatorSpace + 16], st2))"
    by (simp add: a del: One_nat_def)
  show "ApplyAddressTag (Config st0) kAllocatorSpace 0 \<notin>
       (\<lambda>q. ApplyAddressTag (Config st0) q 0) ` set [kAllocatorSpace + 16]"
    by (simp add: ap)
  show "NumSuperPages st2 0 \<le> 2 ^ 20"
    by (simp add: st2_def st1_def st0_def S_def one_used_chunk_fields store_state_def)
  show "UseTag (Config st0) = 0" by (simp add: st0_def one_used_chunk_fields plain_config_def)
  show "CallScan \<notin> set [CallAllocate 1]" by simp
qed


theorem quarantined_not_reused_witness:
  "consistent (one_used_chunk plain_config 0) \<and>
   (\<exists>st1 st2. Quarantine (one_used_chunk plain_config 0) kAllocatorSpace = Inr st1 \<and>
      ChunkState st1 kAllocatorSpace = Inr QUARANTINED \<and>
      run_calls st1 [CallAllocate 1] = Some (Inr ([kAllocatorSpace + 16], st2)) \<and>
      kAllocatorSpace \<notin> set [kAllocatorSpace + 16] \<and>
      ChunkState st2 kAllocatorSpace = Inr QUARANTINED)"
proof -
  note f = plain_run
  note q = Quarantine_leaves_quarantined[OF f(2) f(7)]
  from quarantined_not_reused[OF f(1) f(2) f(3) q f(4) f(9) f(6)] q f(1,2,4)
  show ?thesis unfolding f(8) by blast
qed

lemma tagging_reuse:
  defines "t0 \<equiv> one_used_chunk tagging_config 0"
  defines "S \<equiv> InSuperPage (kAllocatorSpace + kSuperPageSize - 30848)"
  defines "t1 \<equiv> (store_state (t0\<lparr>SmallShadow := (SmallShadow t0)(0 := 1)\<rparr>) S 0 AVAILABLE)
                  \<lparr>TLS_LocalQuarantineSize := 0\<rparr>"
  shows "ChunkState t0 kAllocatorSpace = Inr USED_MIXED"
    "Quarantine t0 kAllocatorSpace = Inr t1"
    "ChunkState t1 kAllocatorSpace = Inr AVAILABLE"
    "\<exists>t2. Allocate t1 1 = Some (Inr (kAllocatorSpace, t2))"
proof -
  have g0: "GetSCD t0 kAllocatorSpace = Inr (the InitAll ! 0)"
    unfolding t0_def by (simp add: GetSCD_one_used_chunk SCDescr_0)
  have g1: "GetSCD t1 kAllocatorSpace = GetSCD t0 kAllocatorSpace"
    by (rule GetSCD_frame) (simp_all add: t1_def)
  show "ChunkState t0 kAllocatorSpace = Inr USED_MIXED"
    unfolding ChunkState_first_chunk[OF g0]
    by (simp add: load_state_def t0_def one_used_chunk_fields)
  show "Quarantine t0 kAllocatorSpace = Inr t1"
    unfolding t0_def t1_def S_def by (rule Quarantine_tagging)
  show "ChunkState t1 kAllocatorSpace = Inr AVAILABLE"
    unfolding ChunkState_first_chunk[OF g1[unfolded g0]]
    by (simp add: load_state_def t1_def S_def store_state_def)
  have v: "load_state t1 S 0 = AVAILABLE"
    by (simp add: load_state_def t1_def S_def store_state_def)
  have "Allocate t1 1 = Some (Inr (kAllocatorSpace + 0 * 16,
          (store_state t1 S 0 USED_MIXED)\<lparr>TLS_PerSC := (TLS_PerSC t1)(0 := (kAllocatorSpace, 0 + 1))\<rparr>))"
    unfolding S_def
    by (rule Allocate_class0[where Hint = 1, OF _ _ _ _ _ v[unfolded S_def]])
       (simp_all add: t1_def t0_def S_def one_used_chunk_fields tagging_config_def store_state_def)
  then show "\<exists>t2. Allocate t1 1 = Some (Inr (kAllocatorSpace, t2))" by simp
qed

lemma overflow_reuse:
  defines "P \<equiv> SPA 1048576"
  defines "s1 \<equiv> (store_state full_first_range (InSecondRangeMeta 0) 0 USED_MIXED)
                  \<lparr>TLS_PerSC := (TLS_PerSC full_first_range)(28 := (P, 1))\<rparr>"
  defines "s2 \<equiv> (store_state s1 (InSecondRangeMeta 0) 0 QUARANTINED)\<lparr>TLS_LocalQuarantineSize := 1024\<rparr>"
  shows "Allocate full_first_range 1024 = Some (Inr (P, s1))"
    "Quarantine s1 P = Inr s2"
    "ChunkState s2 P = Inr QUARANTINED"
    "\<exists>s3. Allocate s2 1 = Some (Inr (P, s3))"
proof -
  let ?SCD = "the InitAll ! 28"
  show "Allocate full_first_range 1024 = Some (Inr (P, s1))"
    unfolding s1_def P_def by (rule Allocate_full_first_range)
  have cfg: "\<not> UseShadow (Config s1)" "\<not> UseAliases (Config s1)" "UseTag (Config s1) = 0"
    by (simp_all add: s1_def full_first_range_fields plain_config_def)
  have r: "RemoveAddressTagAndCheckForDoubleFree s P = Inr P"
    if "\<not> UseShadow (Config s)" "\<not> UseAliases (Config s)" for s
    using that by (simp add: RemoveAddressTagAndCheckForDoubleFree_def GetMemoryTag_def
        ApplyAddressTag_def Let_def)
  have rd: "RoundDownTo P kSuperPageSize = P"
    using RoundDownTo_SPA[of 1048576 0] by (simp add: P_def kSuperPageSize_def)
  have ch: "\<not> P < kAllocatorSpace" "\<not> kAllocatorSpace + kAllocatorSize \<le> P" "P mod kSuperPageSize = 0"
    by (simp_all add: P_def SPA_def kAllocatorSize_def kAllocatorSpace_def kSuperPageSize_def)
  have meta: "SuperPageMetadata s1 1048576 = 28" "SCDescr s1 = the InitAll"
    by (simp_all add: s1_def full_first_range_fields)
  have a: "GetSCD s P = Inr ?SCD"
    if "SuperPageMetadata s 1048576 = 28" "SCDescr s = the InitAll" for s
    unfolding P_def using GetSCD_SPA[of 1048576 s] that by (simp add: length_the_InitAll)
  have mem28: "?SCD \<in> set (the InitAll)" by (rule nth_mem) (simp add: length_the_InitAll)
  have wf: "wf_SCD ?SCD" using InitAll_wf_SCD mem28 by blast
  have b: "ComputeStatePtr P ?SCD = Inr 0"
    using ComputeStatePtr_chunk[OF InitAll_Some mem28 wf, of 0 1048576]
    by (simp add: SCDescr_1_28 P_def)
  have c: "UpdateMemoryTagOnFree s1 P (ChunkSize ?SCD) = Inr (0, s1)"
    using cfg by (simp add: UpdateMemoryTagOnFree_def)
  have S: "State P (NumChunks ?SCD) (RangeNum ?SCD) = InSecondRangeMeta 0"
    using SecondRangeMeta_Index_SPA[of 1048576] by (simp add: State_def SCDescr_1_28 P_def)
  have d: "load_state s1 (State P (NumChunks ?SCD) (RangeNum ?SCD)) 0 \<in> {USED_MIXED, USED_DATA}"
    unfolding S by (simp add: s1_def load_state_def store_state_def)
  have q: "SuperPage_Quarantine s1 P P = Inr (1024, store_state s1 (InSecondRangeMeta 0) 0 QUARANTINED)"
    unfolding SuperPage_Quarantine_used[OF a[OF meta] b c d] S using cfg(3)
    by (simp add: ChunkSize_def SCDescr_1_28)
  have z: "TLS_LocalQuarantineSize s1 = 0"
    by (simp add: s1_def full_first_range_def zero_Allocator_def store_state_def)
  show "Quarantine s1 P = Inr s2"
    unfolding Quarantine_def r[OF cfg(1,2)] s2_def
    by (simp add: Let_def rd ch q z)
  have meta2: "SuperPageMetadata s2 1048576 = 28" "SCDescr s2 = the InitAll"
    by (simp_all add: s2_def s1_def full_first_range_fields)
  show "ChunkState s2 P = Inr QUARANTINED"
    unfolding ChunkState_def Let_def rd a[OF meta2]
    by (simp add: b S) (simp add: s2_def load_state_def store_state_def)
  show "\<exists>s3. Allocate s2 1 = Some (Inr (P, s3))"
    unfolding P_def
    by (rule Allocate_overflow)
       (simp_all add: s2_def s1_def full_first_range_fields plain_config_def store_state_def)
qed

text \<open>
  C2 as the spec words it fails in two ways. With \<open>UseTag = 1\<close> and shadow tagging, a
  \<open>Quarantine(p)\<close> whose new memory tag has a non-zero low nibble makes the chunk
  \<open>AVAILABLE\<close> at once, and the next \<open>Allocate\<close> returns \<open>p\<close>, with no \<open>Scan\<close> in between.
  And when the first range has used up its half of the region, a chunk of the first
  super page of the second range that \<open>Quarantine\<close> has left \<open>QUARANTINED\<close> is returned by
  the \<open>Allocate\<close> that maps a new super page of the first range over it.
\<close>

theorem quarantined_pointer_returned_counterexample:
  "(consistent (one_used_chunk tagging_config 0) \<and>
    ChunkState (one_used_chunk tagging_config 0) kAllocatorSpace = Inr USED_MIXED \<and>
    (\<exists>t1 t2. Quarantine (one_used_chunk tagging_config 0) kAllocatorSpace = Inr t1 \<and>
       ChunkState t1 kAllocatorSpace = Inr AVAILABLE \<and>
       Allocate t1 1 = Some (Inr (kAllocatorSpace, t2)))) \<and>
   (consistent full_first_range \<and>
    (\<exists>s1 s2 s3. Allocate full_first_range 1024 = Some (Inr (0x608000000000, s1)) \<and>
       Quarantine s1 0x608000000000 = Inr s2 \<and>
       ChunkState s2 0x608000000000 = Inr QUARANTINED \<and>
       Allocate s2 1 = Some (Inr (0x608000000000, s3))))"
proof -
  have c1: "consistent (one_used_chunk tagging_config 0)"
    by (simp add: consistent_def started_one_used_chunk)
  have c2: "consistent full_first_range" by (simp add: consistent_def started_full_first_range)
  note t = tagging_reuse
  note o = overflow_reuse[unfolded SPA_second_range(2)]
  from t(1,2,3,4) have A: "ChunkState (one_used_chunk tagging_config 0) kAllocatorSpace = Inr USED_MIXED \<and>
    (\<exists>t1 t2. Quarantine (one_used_chunk tagging_config 0) kAllocatorSpace = Inr t1 \<and>
       ChunkState t1 kAllocatorSpace = Inr AVAILABLE \<and>
       Allocate t1 1 = Some (Inr (kAllocatorSpace, t2)))" by blast
  from o have B: "\<exists>s1 s2 s3. Allocate full_first_range 1024 = Some (Inr (0x608000000000, s1)) \<and>
       Quarantine s1 0x608000000000 = Inr s2 \<and>
       ChunkState s2 0x608000000000 = Inr QUARANTINED \<and>
       Allocate s2 1 = Some (Inr (0x608000000000, s3))" by blast
  from c1 c2 A B show ?thesis by blast
qed

end
